theory Spec2Isabelle
  imports Complex_Main "HOL-Library.Word" "HOL-Library.Multiset"
begin

section \<open>Bird's-eye-view rasterisation: the model\<close>

text \<open>
  The development embeds the rasterisation, normalisation and compositing code of
  \<^verbatim>\<open>tools/make_bev_intensity.py\<close> and the grid sizing and pixel mapping of
  \<^verbatim>\<open>convert_laz_to_png.py\<close>.

  Conventions of the embedding:
  \<^item> floating-point numbers (Python floats, \<^verbatim>\<open>float32\<close> and \<^verbatim>\<open>float64\<close> arrays) are
    real numbers. The grid dimensions, where the code truncates a \<^verbatim>\<open>float64\<close> quotient
    to an integer and one rounding step changes the result, are computed with the
    rounding of \<^verbatim>\<open>float64\<close> arithmetic (\<open>float64\<close> below); elsewhere rounding,
    infinities and NaN are outside the model;
  \<^item> a two-dimensional array of shape \<open>(height, width)\<close> is a list of \<open>height\<close> rows,
    each a list of \<open>width\<close> cells (a shape \<open>(0, width)\<close> is the empty list);
  \<^item> the \<open>N \<times> 3\<close> array \<^verbatim>\<open>points\<close> is a list of triples \<open>(x, y, z)\<close>, the array
    \<^verbatim>\<open>intensities\<close> a list of reals;
  \<^item> every exception the code can raise is a value of type \<open>error\<close>;
  \<^item> the \<^verbatim>\<open>int32\<close> counters are natural numbers (no cell receives \<open>2^31\<close> points),
    and the conversions to \<^verbatim>\<open>int32\<close> are truncations toward zero of values that
    fit 32 bits.
\<close>

subsection \<open>Python and NumPy primitives\<close>

datatype error = ZeroDivisionError | ValueError | IndexError | UnboundLocalError

type_synonym grid = "real list list"
type_synonym count_grid = "nat list list"
type_synonym extent = "real \<times> real \<times> real \<times> real"
type_synonym point = "real \<times> real \<times> real"

text \<open>\<^verbatim>\<open>int(v)\<close> and \<^verbatim>\<open>.astype(int)\<close>: truncation toward zero.\<close>

definition py_int :: "real \<Rightarrow> int" where
  "py_int v = (if 0 \<le> v then \<lfloor>v\<rfloor> else \<lceil>v\<rceil>)"

text \<open>
  Rounding to \<^verbatim>\<open>float64\<close>: the nearest number with 53 significant bits, ties to the
  even significand. \<open>binary_exponent n x\<close> is the exponent \<open>e\<close> with
  \<open>2^e \<le> x < 2^(e+1)\<close> of a positive \<open>x\<close>, found in at most \<open>n\<close> halvings or doublings;
  1100 of them cover the normal range of \<^verbatim>\<open>float64\<close>. Overflow and subnormal numbers are
  outside the model.
\<close>

definition round_half_even :: "real \<Rightarrow> int" where
  "round_half_even x =
     (let f = \<lfloor>x\<rfloor>; d = x - of_int f
      in if d < 1 / 2 then f else if 1 / 2 < d then f + 1 else if even f then f else f + 1)"

fun binary_exponent :: "nat \<Rightarrow> real \<Rightarrow> int" where
  "binary_exponent 0 x = 0"
| "binary_exponent (Suc n) x =
     (if 2 \<le> x then binary_exponent n (x / 2) + 1
      else if x < 1 then binary_exponent n (2 * x) - 1
      else 0)"

definition float64 :: "real \<Rightarrow> real" where
  "float64 x =
     (if x = 0 then 0
      else
        let e = binary_exponent 1100 \<bar>x\<bar>;
            ulp = (if 52 \<le> e then 2 ^ nat (e - 52) else 1 / 2 ^ nat (52 - e))
        in of_int (round_half_even (x / ulp)) * ulp)"

text \<open>
  The quotient \<^verbatim>\<open>(hi - lo) / resolution\<close> of three \<^verbatim>\<open>float64\<close> values as \<^verbatim>\<open>float64\<close>
  arithmetic computes it: the difference is rounded, then the quotient.
\<close>

definition float64_quotient :: "real \<Rightarrow> real \<Rightarrow> real \<Rightarrow> real" where
  "float64_quotient hi lo resolution = float64 (float64 (hi - lo) / resolution)"

text \<open>\<^verbatim>\<open>np.clip(a, a_min, a_max)\<close> is \<^verbatim>\<open>minimum(maximum(a, a_min), a_max)\<close>.\<close>

definition np_clip :: "'a::linorder \<Rightarrow> 'a \<Rightarrow> 'a \<Rightarrow> 'a" where
  "np_clip a a_min a_max = min (max a a_min) a_max"

text \<open>\<^verbatim>\<open>np.zeros((height, width))\<close>; a negative dimension raises \<^verbatim>\<open>ValueError\<close>.\<close>

definition np_zeros :: "int \<Rightarrow> int \<Rightarrow> error + ('a::zero) list list" where
  "np_zeros height width =
     (if height < 0 \<or> width < 0 then Inl ValueError
      else Inr (replicate (nat height) (replicate (nat width) 0)))"

text \<open>\<^verbatim>\<open>np.zeros_like(a)\<close>.\<close>

definition np_zeros_like :: "'a list list \<Rightarrow> ('b::zero) list list" where
  "np_zeros_like a = map (map (\<lambda>_. 0)) a"

text \<open>Boolean-mask selection \<^verbatim>\<open>a[mask]\<close> for a mask as long as \<open>a\<close>.\<close>

definition mask_select :: "bool list \<Rightarrow> 'a list \<Rightarrow> 'a list" where
  "mask_select msk a = map snd (filter fst (zip msk a))"

text \<open>
  An integer index into an axis of size \<open>n\<close>: indices \<open>0 \<dots> n - 1\<close> are taken as they
  are, \<open>- n \<dots> - 1\<close> count from the end, everything else raises \<^verbatim>\<open>IndexError\<close>.
\<close>

definition np_index :: "nat \<Rightarrow> int \<Rightarrow> nat option" where
  "np_index n i =
     (if 0 \<le> i \<and> i < int n then Some (nat i)
      else if - int n \<le> i \<and> i < 0 then Some (nat (int n + i))
      else None)"

text \<open>The cell addressed by \<^verbatim>\<open>a[py, px]\<close> in a two-dimensional array.\<close>

definition grid_index :: "'a list list \<Rightarrow> int \<Rightarrow> int \<Rightarrow> (nat \<times> nat) option" where
  "grid_index a py px =
     (case np_index (length a) py of
        None \<Rightarrow> None
      | Some r \<Rightarrow>
          (case np_index (length (a ! r)) px of
             None \<Rightarrow> None
           | Some c \<Rightarrow> Some (r, c)))"

text \<open>\<^verbatim>\<open>np.min\<close> and \<^verbatim>\<open>np.max\<close> of a non-empty flattened array.\<close>

definition np_min :: "real list \<Rightarrow> real" where
  "np_min a = fold min (tl a) (hd a)"

definition np_max :: "real list \<Rightarrow> real" where
  "np_max a = fold max (tl a) (hd a)"

text \<open>
  \<^verbatim>\<open>np.percentile(a, q)\<close> with the default linear interpolation: on the sorted data the
  virtual index is \<open>(n - 1) * q / 100\<close>, and the result interpolates between its two
  neighbours. On an empty array NumPy raises \<^verbatim>\<open>IndexError\<close> (index -1 is out of
  bounds for axis 0 with size 0).
\<close>

definition np_percentile :: "real list \<Rightarrow> real \<Rightarrow> error + real" where
  "np_percentile a q =
     (if a = [] then Inl IndexError
      else
        let s = sort a;
            n = length a;
            h = real (n - 1) * q / 100;
            lo = nat \<lfloor>h\<rfloor>;
            hi = min (lo + 1) (n - 1);
            gamma = h - of_int \<lfloor>h\<rfloor>
        in Inr (s ! lo + gamma * (s ! hi - s ! lo)))"

text \<open>\<^verbatim>\<open>.astype(np.uint8)\<close>: the fractional part is discarded.\<close>

definition astype_uint8 :: "grid \<Rightarrow> 8 word list list" where
  "astype_uint8 a = map (map (\<lambda>v. word_of_int (py_int v))) a"

subsection \<open>\<^verbatim>\<open>rasterize_bev\<close> (tools/make_bev_intensity.py)\<close>

text \<open>
  Lines 198 and 199: the grid dimensions \<open>(width, height)\<close>. The extent and the resolution
  are Python floats: a real that is no \<^verbatim>\<open>float64\<close> value stands for the \<^verbatim>\<open>float64\<close>
  nearest to it, as the argument \<^verbatim>\<open>0.2\<close> does, and a value that is one is left as it is.
  The quotients are \<^verbatim>\<open>float64\<close> quotients, truncated by \<^verbatim>\<open>int\<close>.
\<close>

definition bev_dims :: "extent \<Rightarrow> real \<Rightarrow> error + (int \<times> int)" where
  "bev_dims extent resolution =
     (case extent of (xmin, xmax, ymin, ymax) \<Rightarrow>
        let xmin = float64 xmin; xmax = float64 xmax;
            ymin = float64 ymin; ymax = float64 ymax;
            resolution = float64 resolution
        in if resolution = 0 then Inl ZeroDivisionError
           else Inr (py_int (float64_quotient xmax xmin resolution),
                     py_int (float64_quotient ymax ymin resolution)))"

text \<open>Lines 213 to 216: the extent filter, one flag per point.\<close>

definition valid_mask :: "extent \<Rightarrow> point list \<Rightarrow> bool list" where
  "valid_mask extent points =
     (case extent of (xmin, xmax, ymin, ymax) \<Rightarrow>
        map (\<lambda>(x, y, z). x \<ge> xmin \<and> x < xmax \<and> y \<ge> ymin \<and> y < ymax) points)"

text \<open>
  Lines 221 to 231: the pixel coordinates of the points that passed the filter, paired
  with their intensities, as the triples \<open>(pixel_x[i], pixel_y[i], valid_intensities[i])\<close>
  the reducer loops run over.
\<close>

definition bev_pixels ::
  "point list \<Rightarrow> real list \<Rightarrow> extent \<Rightarrow> real \<Rightarrow> int \<Rightarrow> int \<Rightarrow> (int \<times> int \<times> real) list" where
  "bev_pixels points intensities extent resolution width height =
     (case extent of (xmin, xmax, ymin, ymax) \<Rightarrow>
        let msk = valid_mask extent points;
            valid_x = mask_select msk (map (\<lambda>(x, y, z). x) points);
            valid_y = mask_select msk (map (\<lambda>(x, y, z). y) points);
            valid_intensities = mask_select msk intensities;
            pixel_x = map (\<lambda>x. py_int ((x - xmin) / resolution)) valid_x;
            pixel_y = map (\<lambda>y. py_int ((y - ymin) / resolution)) valid_y;
            pixel_x = map (\<lambda>p. np_clip p 0 (width - 1)) pixel_x;
            pixel_y = map (\<lambda>p. np_clip p 0 (height - 1)) pixel_y
        in zip pixel_x (zip pixel_y valid_intensities))"

text \<open>
  The two reducer loops (lines 236 to 239 and 242 to 245) differ in one operation only:
  \<open>grid[py, px] = max(grid[py, px], v)\<close> against \<open>grid[py, px] += v\<close>. The loop takes
  that operation as \<open>f\<close>. Both grids have the same shape, so one index check serves both.
\<close>

fun reducer_loop ::
  "(real \<Rightarrow> real \<Rightarrow> real) \<Rightarrow> (int \<times> int \<times> real) list \<Rightarrow> grid \<times> count_grid
     \<Rightarrow> error + (grid \<times> count_grid)" where
  "reducer_loop f [] (intensity_grid, count_grid) = Inr (intensity_grid, count_grid)"
| "reducer_loop f ((px, py, v) # rest) (intensity_grid, count_grid) =
     (case grid_index intensity_grid py px of
        None \<Rightarrow> Inl IndexError
      | Some (r, c) \<Rightarrow>
          reducer_loop f rest
            (intensity_grid[r := (intensity_grid ! r)[c := f (intensity_grid ! r ! c) v]],
             count_grid[r := (count_grid ! r)[c := count_grid ! r ! c + 1]]))"

text \<open>Lines 248 and 249: divide the sums by the counts where the count is positive.\<close>

definition divide_by_count :: "grid \<Rightarrow> count_grid \<Rightarrow> grid" where
  "divide_by_count intensity_grid count_grid =
     map2 (map2 (\<lambda>v n. if n > 0 then v / real n else v)) intensity_grid count_grid"

definition rasterize_bev ::
  "point list \<Rightarrow> real list \<Rightarrow> extent \<Rightarrow> real \<Rightarrow> string \<Rightarrow> error + grid" where
  "rasterize_bev points intensities extent resolution reducer =
     (case bev_dims extent resolution of
        Inl e \<Rightarrow> Inl e
      | Inr (width, height) \<Rightarrow>
          (case np_zeros height width of
             Inl e \<Rightarrow> Inl e
           | Inr intensity_grid \<Rightarrow>
               (case np_zeros height width of
                  Inl e \<Rightarrow> Inl e
                | Inr count_grid \<Rightarrow>
                    if points = [] then Inr intensity_grid
                    else if \<not> list_ex (\<lambda>b. b) (valid_mask extent points) then Inr intensity_grid
                    else if length intensities \<noteq> length points then Inl IndexError
                    else
                      let pixels = bev_pixels points intensities extent resolution width height
                      in if reducer = ''max'' then
                           (case reducer_loop max pixels (intensity_grid, count_grid) of
                              Inl e \<Rightarrow> Inl e
                            | Inr (intensity_grid, count_grid) \<Rightarrow> Inr intensity_grid)
                         else if reducer = ''mean'' then
                           (case reducer_loop (+) pixels (intensity_grid, count_grid) of
                              Inl e \<Rightarrow> Inl e
                            | Inr (intensity_grid, count_grid) \<Rightarrow>
                                Inr (divide_by_count intensity_grid count_grid))
                         else Inr intensity_grid)))"

subsection \<open>\<^verbatim>\<open>normalize_intensity\<close> (tools/make_bev_intensity.py)\<close>

text \<open>
  \<^verbatim>\<open>np.min\<close> of an array without cells raises \<^verbatim>\<open>ValueError\<close>; a method that is neither
  \<^verbatim>\<open>minmax\<close> nor \<^verbatim>\<open>percentile\<close> leaves \<^verbatim>\<open>normalized\<close> unbound.
\<close>

definition normalize_intensity :: "grid \<Rightarrow> string \<Rightarrow> error + 8 word list list" where
  "normalize_intensity intensity_grid method =
     (if method = ''minmax'' then
        (if concat intensity_grid = [] then Inl ValueError
         else
           let min_val = np_min (concat intensity_grid);
               max_val = np_max (concat intensity_grid);
               normalized =
                 (if max_val > min_val then
                    map (map (\<lambda>v. (v - min_val) / (max_val - min_val) * 255)) intensity_grid
                  else np_zeros_like intensity_grid)
           in Inr (astype_uint8 normalized))
      else if method = ''percentile'' then
        (let positive = filter (\<lambda>v. v > 0) (concat intensity_grid)
         in case np_percentile positive 1 of
              Inl e \<Rightarrow> Inl e
            | Inr p1 \<Rightarrow>
                (case np_percentile positive 99 of
                   Inl e \<Rightarrow> Inl e
                 | Inr p99 \<Rightarrow>
                     let normalized =
                       (if p99 > p1 then
                          map (map (\<lambda>v. np_clip ((v - p1) / (p99 - p1) * 255) 0 255))
                            intensity_grid
                        else np_zeros_like intensity_grid)
                     in Inr (astype_uint8 normalized)))
      else Inl UnboundLocalError)"

subsection \<open>The composite accumulator of \<^verbatim>\<open>main\<close> (tools/make_bev_intensity.py)\<close>

text \<open>
  Lines 387 to 393. Every grid of a run comes from \<open>rasterize_bev\<close> with the same extent
  and resolution, so the two arguments of \<^verbatim>\<open>np.maximum\<close> and of \<open>+\<close> have one shape.
\<close>

definition np_maximum :: "grid \<Rightarrow> grid \<Rightarrow> grid" where
  "np_maximum a b = map2 (map2 max) a b"

definition pairwise_average :: "grid \<Rightarrow> grid \<Rightarrow> grid" where
  "pairwise_average a b = map2 (map2 (\<lambda>u v. (u + v) / 2)) a b"

definition composite_update :: "string \<Rightarrow> grid option \<Rightarrow> grid \<Rightarrow> grid option" where
  "composite_update reducer composite_grid intensity_grid =
     (case composite_grid of
        None \<Rightarrow> Some intensity_grid
      | Some composite \<Rightarrow>
          if reducer = ''max'' then Some (np_maximum composite intensity_grid)
          else Some (pairwise_average composite intensity_grid))"

text \<open>The accumulator after the grids of the processed frames, in processing order.\<close>

fun composite_run :: "string \<Rightarrow> grid option \<Rightarrow> grid list \<Rightarrow> grid option" where
  "composite_run reducer composite_grid [] = composite_grid"
| "composite_run reducer composite_grid (intensity_grid # frames) =
     composite_run reducer (composite_update reducer composite_grid intensity_grid) frames"

subsection \<open>\<^verbatim>\<open>convert_laz_to_intensity_png\<close> (convert_laz_to_png.py)\<close>

text \<open>
  Lines 37 to 41: the raster dimensions \<open>(width, height)\<close> from the bounds of the data.
  Every exception is caught by the function, which then reports failure (\<open>None\<close>):
  \<^verbatim>\<open>x.min()\<close> of no points, and \<^verbatim>\<open>int\<close> of the infinite quotient by a zero resolution.
  The coordinates and the resolution are \<^verbatim>\<open>float64\<close> values and the quotients
  \<^verbatim>\<open>float64\<close> quotients, as in \<open>bev_dims\<close>.
\<close>

definition laz_dims :: "real list \<Rightarrow> real list \<Rightarrow> real \<Rightarrow> (int \<times> int) option" where
  "laz_dims x y resolution =
     (let x = map float64 x; y = map float64 y; resolution = float64 resolution
      in if x = [] \<or> y = [] \<or> resolution = 0 then None
         else
           let x_min = np_min x; x_max = np_max x;
               y_min = np_min y; y_max = np_max y;
               width = py_int (float64_quotient x_max x_min resolution) + 1;
               height = py_int (float64_quotient y_max y_min resolution) + 1
           in Some (width, height))"

text \<open>Lines 50 and 51: the pixel \<open>(px, py)\<close> of one point; the row index flips the y axis.\<close>

definition laz_pixel :: "real \<Rightarrow> real \<Rightarrow> real \<Rightarrow> real \<times> real \<Rightarrow> int \<times> int" where
  "laz_pixel x_min y_max resolution p =
     (case p of (x, y) \<Rightarrow>
        (py_int ((x - x_min) / resolution), py_int ((y_max - y) / resolution)))"

text \<open>Line 54: the pixels kept for accumulation.\<close>

definition laz_valid :: "int \<Rightarrow> int \<Rightarrow> int \<times> int \<Rightarrow> bool" where
  "laz_valid width height p =
     (case p of (px, py) \<Rightarrow> px \<ge> 0 \<and> px < width \<and> py \<ge> 0 \<and> py < height)"

text \<open>The pixel \<open>(px, py)\<close> \<open>rasterize_bev\<close> computes for one point that passed its filter.\<close>

definition bev_pixel :: "extent \<Rightarrow> real \<Rightarrow> int \<Rightarrow> int \<Rightarrow> real \<times> real \<Rightarrow> int \<times> int" where
  "bev_pixel extent resolution width height p =
     (case extent of (xmin, xmax, ymin, ymax) \<Rightarrow>
        case p of (x, y) \<Rightarrow>
          (np_clip (py_int ((x - xmin) / resolution)) 0 (width - 1),
           np_clip (py_int ((y - ymin) / resolution)) 0 (height - 1)))"

subsection \<open>Notions the statements use\<close>

text \<open>A grid of \<open>h\<close> rows of \<open>w\<close> cells each.\<close>

definition has_shape :: "nat \<Rightarrow> nat \<Rightarrow> 'a list list \<Rightarrow> bool" where
  "has_shape h w a = (length a = h \<and> list_all (\<lambda>row. length row = w) a)"

text \<open>The intensities of the pixel triples that fall into cell \<open>(r, c)\<close>, in input order.\<close>

definition cell_values :: "nat \<Rightarrow> nat \<Rightarrow> (int \<times> int \<times> real) list \<Rightarrow> real list" where
  "cell_values r c pixels =
     map (\<lambda>(px, py, v). v) (filter (\<lambda>(px, py, v). py = int r \<and> px = int c) pixels)"

text \<open>A point lies inside the half-open region of the extent.\<close>

definition in_extent :: "extent \<Rightarrow> point \<Rightarrow> bool" where
  "in_extent extent p =
     (case extent of (xmin, xmax, ymin, ymax) \<Rightarrow>
        case p of (x, y, z) \<Rightarrow> xmin \<le> x \<and> x < xmax \<and> ymin \<le> y \<and> y < ymax)"

section \<open>Properties\<close>

lemma py_int_nonneg: "0 \<le> v \<Longrightarrow> py_int v = \<lfloor>v\<rfloor>"
  by (simp add: py_int_def)

lemma has_shape_nth: "has_shape h w a \<Longrightarrow> r < h \<Longrightarrow> length (a ! r) = w"
  by (simp add: has_shape_def list_all_length)

lemma has_shape_length: "has_shape h w a \<Longrightarrow> length a = h"
  by (simp add: has_shape_def)

lemma has_shape_update:
  assumes "has_shape h w a"
  shows "has_shape h w (a[r := (a ! r)[c := v]])"
proof -
  have "length (a[r := (a ! r)[c := v]] ! n) = w" if "n < length a" for n
  proof (cases "n = r")
    case True
    then show ?thesis using assms that by (simp add: has_shape_def list_all_length)
  next
    case False
    then show ?thesis using assms that by (simp add: has_shape_def list_all_length)
  qed
  then show ?thesis
    using assms by (simp add: has_shape_def list_all_length)
qed

lemma has_shape_replicate: "has_shape h w (replicate h (replicate w v))"
  by (simp add: has_shape_def list_all_length)

lemma np_index_in_range: "0 \<le> i \<Longrightarrow> i < int n \<Longrightarrow> np_index n i = Some (nat i)"
  by (simp add: np_index_def)

lemma grid_index_in_range:
  assumes "has_shape h w a" "0 \<le> py" "py < int h" "0 \<le> px" "px < int w"
  shows "grid_index a py px = Some (nat py, nat px)"
proof -
  have "np_index (length a) py = Some (nat py)"
    using assms by (simp add: np_index_in_range has_shape_length)
  moreover have "length (a ! nat py) = w"
    using assms by (intro has_shape_nth[of h]) auto
  ultimately show ?thesis
    using assms by (simp add: grid_index_def np_index_in_range)
qed

lemma reducer_loop_shape:
  "reducer_loop f ts (ig, cg) = Inr (ig', cg') \<Longrightarrow> has_shape h w ig \<Longrightarrow> has_shape h w cg
     \<Longrightarrow> has_shape h w ig' \<and> has_shape h w cg'"
proof (induction ts arbitrary: ig cg)
  case Nil
  then show ?case by simp
next
  case (Cons t ts)
  obtain px py v where t: "t = (px, py, v)" by (cases t) auto
  from Cons.prems(1) obtain r c where rc: "grid_index ig py px = Some (r, c)"
    by (auto simp add: t split: option.splits)
  with Cons.prems(1) have
    "reducer_loop f ts (ig[r := (ig ! r)[c := f (ig ! r ! c) v]],
        cg[r := (cg ! r)[c := cg ! r ! c + 1]]) = Inr (ig', cg')"
    by (simp add: t)
  moreover have "has_shape h w (ig[r := (ig ! r)[c := f (ig ! r ! c) v]])"
    "has_shape h w (cg[r := (cg ! r)[c := cg ! r ! c + 1]])"
    using Cons.prems(2,3) by (simp_all add: has_shape_update)
  ultimately show ?case
    by (rule Cons.IH)
qed

lemma cell_values_Cons:
  "cell_values r c ((px, py, v) # ts) =
     (if py = int r \<and> px = int c then v # cell_values r c ts else cell_values r c ts)"
  by (simp add: cell_values_def)

lemma cell_values_Nil: "cell_values r c [] = []"
  by (simp add: cell_values_def)

lemma nth_update2:
  assumes "has_shape h w a" "r < h" "c < w" "r' < h" "c' < w"
  shows "a[r := (a ! r)[c := v]] ! r' ! c' = (if r' = r \<and> c' = c then v else a ! r' ! c')"
  using assms by (auto simp add: has_shape_def list_all_length nth_list_update)

lemma reducer_loop_cells:
  assumes "has_shape h w ig" "has_shape h w cg"
    and "\<forall>(px, py, v) \<in> set ts. 0 \<le> px \<and> px < int w \<and> 0 \<le> py \<and> py < int h"
  shows "\<exists>ig' cg'. reducer_loop f ts (ig, cg) = Inr (ig', cg')
           \<and> has_shape h w ig' \<and> has_shape h w cg'
           \<and> (\<forall>r<h. \<forall>c<w. ig' ! r ! c = fold (\<lambda>v a. f a v) (cell_values r c ts) (ig ! r ! c)
                 \<and> cg' ! r ! c = cg ! r ! c + length (cell_values r c ts))"
  using assms
proof (induction ts arbitrary: ig cg)
  case Nil
  then show ?case by (simp add: cell_values_Nil)
next
  case (Cons t ts)
  obtain px py v where t: "t = (px, py, v)" by (cases t) auto
  from Cons.prems(3) have rng: "0 \<le> px" "px < int w" "0 \<le> py" "py < int h"
    by (auto simp add: t)
  then have gi: "grid_index ig py px = Some (nat py, nat px)"
    using Cons.prems(1) by (simp add: grid_index_in_range)
  let ?r = "nat py" and ?c = "nat px"
  let ?ig = "ig[?r := (ig ! ?r)[?c := f (ig ! ?r ! ?c) v]]"
  let ?cg = "cg[?r := (cg ! ?r)[?c := cg ! ?r ! ?c + 1]]"
  have rc: "?r < h" "?c < w" using rng by auto
  have sh: "has_shape h w ?ig" "has_shape h w ?cg"
    using Cons.prems(1,2) by (simp_all add: has_shape_update)
  have rest: "\<forall>(px, py, v) \<in> set ts. 0 \<le> px \<and> px < int w \<and> 0 \<le> py \<and> py < int h"
    using Cons.prems(3) by simp
  from Cons.IH[OF sh rest] obtain ig' cg' where
    run: "reducer_loop f ts (?ig, ?cg) = Inr (ig', cg')"
    and sh': "has_shape h w ig'" "has_shape h w cg'"
    and cells: "\<forall>r<h. \<forall>c<w. ig' ! r ! c = fold (\<lambda>v a. f a v) (cell_values r c ts) (?ig ! r ! c)
                 \<and> cg' ! r ! c = ?cg ! r ! c + length (cell_values r c ts)"
    by blast
  have "reducer_loop f (t # ts) (ig, cg) = Inr (ig', cg')"
    using run gi by (simp add: t)
  moreover have "\<forall>r<h. \<forall>c<w.
      ig' ! r ! c = fold (\<lambda>v a. f a v) (cell_values r c (t # ts)) (ig ! r ! c)
      \<and> cg' ! r ! c = cg ! r ! c + length (cell_values r c (t # ts))"
  proof (intro allI impI)
    fix r c assume r: "r < h" and c: "c < w"
    have a: "?ig ! r ! c = (if r = ?r \<and> c = ?c then f (ig ! ?r ! ?c) v else ig ! r ! c)"
      using nth_update2[OF Cons.prems(1) rc r c] by simp
    have b: "?cg ! r ! c = (if r = ?r \<and> c = ?c then cg ! ?r ! ?c + 1 else cg ! r ! c)"
      using nth_update2[OF Cons.prems(2) rc r c] by simp
    have eq: "(py = int r \<and> px = int c) = (r = ?r \<and> c = ?c)"
      using rng by auto
    show "ig' ! r ! c = fold (\<lambda>v a. f a v) (cell_values r c (t # ts)) (ig ! r ! c)
      \<and> cg' ! r ! c = cg ! r ! c + length (cell_values r c (t # ts))"
      using cells r c a b eq by (auto simp add: t cell_values_Cons)
  qed
  ultimately show ?case using sh' by blast
qed

lemma fold_max_Max: "fold (\<lambda>v a. max a v) vs (a::real) = Max (insert a (set vs))"
proof -
  have "(\<lambda>v a. max a v) = (max :: real \<Rightarrow> real \<Rightarrow> real)"
    by (intro ext) (simp add: max.commute)
  then have "fold (\<lambda>v a. max a v) vs a = fold max vs a"
    by simp
  also have "\<dots> = Max (set (a # vs))"
    by (simp only: Max.set_eq_fold)
  finally show ?thesis by simp
qed

lemma fold_plus_sum: "fold (\<lambda>v a. a + v) vs (a::real) = a + sum_list vs"
  by (induction vs arbitrary: a) simp_all

lemma valid_mask_in_extent: "valid_mask extent points = map (in_extent extent) points"
  by (cases extent) (auto simp add: valid_mask_def in_extent_def)

text \<open>The pixel triples as one map over the filtered point and intensity pairs.\<close>

lemma bev_pixels_map_filter:
  assumes "length intensities = length points"
  shows "bev_pixels points intensities extent resolution width height =
     map (\<lambda>((x, y, z), i).
            (fst (bev_pixel extent resolution width height (x, y)),
             snd (bev_pixel extent resolution width height (x, y)), i))
       (filter (\<lambda>(p, i). in_extent extent p) (zip points intensities))"
  using assms
proof (induction intensities points rule: list_induct2)
  case Nil
  then show ?case
    by (cases extent) (simp add: bev_pixels_def valid_mask_def mask_select_def)
next
  case (Cons i ins p ps)
  obtain xmin xmax ymin ymax where e: "extent = (xmin, xmax, ymin, ymax)"
    by (cases extent) auto
  obtain x y z where p: "p = (x, y, z)" by (cases p) auto
  from Cons.IH show ?case
    by (simp add: e p bev_pixels_def valid_mask_def mask_select_def bev_pixel_def
        in_extent_def Let_def)
qed

lemma np_clip_range: "lo \<le> hi \<Longrightarrow> lo \<le> np_clip a lo hi \<and> np_clip a lo hi \<le> hi"
  by (auto simp add: np_clip_def)

lemma bev_pixels_in_range:
  assumes "length intensities = length points" "1 \<le> width" "1 \<le> height"
  shows "\<forall>(px, py, v) \<in> set (bev_pixels points intensities extent resolution width height).
           0 \<le> px \<and> px < int (nat width) \<and> 0 \<le> py \<and> py < int (nat height)"
proof -
  have "0 \<le> np_clip a 0 (width - 1) \<and> np_clip a 0 (width - 1) < width" for a
    using np_clip_range[of 0 "width - 1" a] assms(2) by simp
  moreover have "0 \<le> np_clip a 0 (height - 1) \<and> np_clip a 0 (height - 1) < height" for a
    using np_clip_range[of 0 "height - 1" a] assms(3) by simp
  ultimately show ?thesis
    using assms
    by (cases extent) (auto simp add: bev_pixels_map_filter bev_pixel_def)
qed

lemma mask_select_none: "\<not> list_ex (\<lambda>b. b) msk \<Longrightarrow> mask_select msk a = []"
  by (auto simp add: mask_select_def filter_empty_conv list_ex_iff dest: set_zip_leftD)

lemma bev_pixels_no_valid:
  assumes "\<not> list_ex (\<lambda>b. b) (valid_mask extent points)"
  shows "bev_pixels points intensities extent resolution width height = []"
  using assms by (cases extent) (simp add: bev_pixels_def mask_select_none Let_def)

lemma bev_pixels_no_points:
  "bev_pixels [] intensities extent resolution width height = []"
  by (cases extent) (simp add: bev_pixels_def mask_select_def valid_mask_def)

lemma divide_by_count_zero:
  "divide_by_count (replicate h (replicate w 0)) (replicate h (replicate w 0)) =
     replicate h (replicate w 0)"
  by (simp add: divide_by_count_def zip_replicate map_replicate_const)

lemma divide_by_count_nth:
  assumes "has_shape h w ig" "has_shape h w cg" "r < h" "c < w"
  shows "divide_by_count ig cg ! r ! c =
     (if cg ! r ! c > 0 then ig ! r ! c / real (cg ! r ! c) else ig ! r ! c)"
  using assms by (simp add: divide_by_count_def has_shape_def list_all_length)

lemma divide_by_count_shape:
  assumes "has_shape h w ig" "has_shape h w cg"
  shows "has_shape h w (divide_by_count ig cg)"
  using assms by (simp add: divide_by_count_def has_shape_def list_all_length)

text \<open>The early returns agree with running the loops on no pixels.\<close>

lemma rasterize_bev_loops:
  assumes "bev_dims extent resolution = Inr (width, height)" "0 \<le> width" "0 \<le> height"
    and "length intensities = length points"
  shows "rasterize_bev points intensities extent resolution reducer =
     (let pixels = bev_pixels points intensities extent resolution width height;
          zeros = replicate (nat height) (replicate (nat width) 0);
          zeros_count = replicate (nat height) (replicate (nat width) 0)
      in if reducer = ''max'' then
           (case reducer_loop max pixels (zeros, zeros_count) of
              Inl e \<Rightarrow> Inl e | Inr (ig, cg) \<Rightarrow> Inr ig)
         else if reducer = ''mean'' then
           (case reducer_loop (+) pixels (zeros, zeros_count) of
              Inl e \<Rightarrow> Inl e | Inr (ig, cg) \<Rightarrow> Inr (divide_by_count ig cg))
         else Inr zeros)"
proof -
  let ?e = extent
  note dims = assms(1)
  have z: "np_zeros height width = Inr (replicate (nat height) (replicate (nat width) (0::real)))"
    "np_zeros height width = Inr (replicate (nat height) (replicate (nat width) (0::nat)))"
    using assms by (simp_all add: np_zeros_def)
  consider (empty) "points = []"
    | (none) "points \<noteq> []" "\<not> list_ex (\<lambda>b. b) (valid_mask ?e points)"
    | (some) "points \<noteq> []" "list_ex (\<lambda>b. b) (valid_mask ?e points)"
    by blast
  then show ?thesis
  proof cases
    case empty
    then show ?thesis
      unfolding rasterize_bev_def
      by (simp add: dims z bev_pixels_no_points divide_by_count_zero Let_def)
  next
    case none
    then show ?thesis
      unfolding rasterize_bev_def
      by (simp add: dims z bev_pixels_no_valid divide_by_count_zero Let_def)
  next
    case some
    then show ?thesis
      unfolding rasterize_bev_def
      using assms(4) by (simp add: dims z Let_def)
  qed
qed

subsection \<open>Rounding\<close>

lemma round_half_even_nonneg:
  assumes "0 \<le> x"
  shows "0 \<le> round_half_even x"
proof -
  have f: "0 \<le> \<lfloor>x\<rfloor>" using assms by simp
  have "round_half_even x = \<lfloor>x\<rfloor> \<or> round_half_even x = \<lfloor>x\<rfloor> + 1"
    by (simp add: round_half_even_def Let_def)
  with f show ?thesis by linarith
qed

lemma float64_nonneg:
  assumes "0 \<le> x"
  shows "0 \<le> float64 x"
proof (cases "x = 0")
  case True
  then show ?thesis by (simp add: float64_def)
next
  case False
  have scaled: "0 \<le> of_int (round_half_even (x / u)) * u" if "0 < u" for u :: real
  proof -
    have "0 \<le> x / u" using assms that by simp
    then have "0 \<le> round_half_even (x / u)" by (rule round_half_even_nonneg)
    then show ?thesis using that by simp
  qed
  have "0 < (if 52 \<le> e then 2 ^ nat (e - 52) else 1 / 2 ^ nat (52 - e) :: real)" for e :: int
    by simp
  then show ?thesis
    using False by (simp only: float64_def Let_def if_False scaled)
qed

lemma float64_quotient_nonneg:
  assumes "lo \<le> hi" "0 < resolution"
  shows "0 \<le> float64_quotient hi lo resolution"
proof -
  have "0 \<le> float64 (hi - lo)" using assms(1) by (simp add: float64_nonneg)
  then have "0 \<le> float64 (hi - lo) / resolution" using assms(2) by simp
  then show ?thesis
    unfolding float64_quotient_def by (rule float64_nonneg)
qed

lemma bev_dims_valid:
  assumes "float64 xmin < float64 xmax" "float64 ymin < float64 ymax" "0 < float64 resolution"
  shows "bev_dims (xmin, xmax, ymin, ymax) resolution =
     Inr (\<lfloor>float64_quotient (float64 xmax) (float64 xmin) (float64 resolution)\<rfloor>,
          \<lfloor>float64_quotient (float64 ymax) (float64 ymin) (float64 resolution)\<rfloor>)"
proof -
  have "0 \<le> float64_quotient (float64 xmax) (float64 xmin) (float64 resolution)"
    "0 \<le> float64_quotient (float64 ymax) (float64 ymin) (float64 resolution)"
    using assms by (simp_all add: float64_quotient_nonneg)
  then show ?thesis
    using assms(3) by (simp add: bev_dims_def py_int_nonneg Let_def)
qed

lemma rasterize_bev_shape:
  assumes "bev_dims extent resolution = Inr (width, height)"
    and "rasterize_bev points intensities extent resolution reducer = Inr g"
  shows "has_shape (nat height) (nat width) g"
proof -
  let ?z = "replicate (nat height) (replicate (nat width) (0::real))"
  let ?zc = "replicate (nat height) (replicate (nat width) (0::nat))"
  let ?px = "bev_pixels points intensities extent resolution width height"
  have nonneg: "\<not> (height < 0 \<or> width < 0)"
    using assms by (auto simp add: rasterize_bev_def np_zeros_def split: if_splits)
  then have z: "np_zeros height width = Inr ?z" "np_zeros height width = Inr ?zc"
    by (simp_all add: np_zeros_def)
  have shz: "has_shape (nat height) (nat width) ?z" "has_shape (nat height) (nat width) ?zc"
    by (rule has_shape_replicate)+
  have loop: "has_shape (nat height) (nat width) ig \<and> has_shape (nat height) (nat width) cg"
    if "reducer_loop f ?px (?z, ?zc) = Inr (ig, cg)" for f ig cg
    using that shz by (rule reducer_loop_shape)
  from assms(2) have "g = ?z
      \<or> (\<exists>cg. reducer_loop max ?px (?z, ?zc) = Inr (g, cg))
      \<or> (\<exists>ig cg. reducer_loop (+) ?px (?z, ?zc) = Inr (ig, cg) \<and> g = divide_by_count ig cg)"
    unfolding rasterize_bev_def
    by (auto simp add: assms(1) z Let_def split: if_splits sum.splits)
  then show ?thesis
    using shz loop divide_by_count_shape by blast
qed

lemma np_min_Min: "a \<noteq> [] \<Longrightarrow> np_min a = Min (set a)"
  by (cases a) (simp_all add: np_min_def Min.set_eq_fold del: set_simps)

lemma np_max_Max: "a \<noteq> [] \<Longrightarrow> np_max a = Max (set a)"
  by (cases a) (simp_all add: np_max_def Max.set_eq_fold del: set_simps)

lemma np_min_le_np_max: "a \<noteq> [] \<Longrightarrow> np_min a \<le> np_max a"
  by (simp add: np_min_Min np_max_Max)

subsection \<open>Grid dimensions\<close>

text \<open>
  Claim C1, amended. For every valid configuration (\<open>xmax > xmin\<close>, \<open>ymax > ymin\<close>,
  \<open>resolution > 0\<close>, as \<^verbatim>\<open>float64\<close> values) \<open>rasterize_bev\<close> computes \<open>width\<close> and \<open>height\<close>
  as the floor of the \<^verbatim>\<open>float64\<close> quotients \<open>(xmax - xmin) / resolution\<close> and
  \<open>(ymax - ymin) / resolution\<close>, and every grid it returns has that many rows and
  columns; the extent \<open>(-80, 80, -80, 80)\<close> with resolution \<open>0.2\<close> gives \<open>800 \<times> 800\<close>.
  The rasteriser of \<open>convert_laz_to_png.py\<close> takes its bounds from the data and computes
  one more than the floor of the \<^verbatim>\<open>float64\<close> quotient in each direction.
\<close>

theorem rasterize_bev_grid_dimensions:
  assumes "float64 xmin < float64 xmax" "float64 ymin < float64 ymax" "0 < float64 resolution"
  shows "bev_dims (xmin, xmax, ymin, ymax) resolution =
           Inr (\<lfloor>float64_quotient (float64 xmax) (float64 xmin) (float64 resolution)\<rfloor>,
                \<lfloor>float64_quotient (float64 ymax) (float64 ymin) (float64 resolution)\<rfloor>)
    \<and> (\<forall>g. rasterize_bev points intensities (xmin, xmax, ymin, ymax) resolution reducer = Inr g
          \<longrightarrow> has_shape
                (nat \<lfloor>float64_quotient (float64 ymax) (float64 ymin) (float64 resolution)\<rfloor>)
                (nat \<lfloor>float64_quotient (float64 xmax) (float64 xmin) (float64 resolution)\<rfloor>) g)
    \<and> bev_dims (- 80, 80, - 80, 80) 0.2 = Inr (800, 800)
    \<and> (x \<noteq> [] \<and> y \<noteq> [] \<longrightarrow>
          laz_dims x y resolution =
            Some (\<lfloor>float64_quotient (np_max (map float64 x)) (np_min (map float64 x))
                     (float64 resolution)\<rfloor> + 1,
                  \<lfloor>float64_quotient (np_max (map float64 y)) (np_min (map float64 y))
                     (float64 resolution)\<rfloor> + 1))"
proof (intro conjI allI impI)
  show d: "bev_dims (xmin, xmax, ymin, ymax) resolution =
           Inr (\<lfloor>float64_quotient (float64 xmax) (float64 xmin) (float64 resolution)\<rfloor>,
                \<lfloor>float64_quotient (float64 ymax) (float64 ymin) (float64 resolution)\<rfloor>)"
    using assms by (rule bev_dims_valid)
  show "has_shape
                (nat \<lfloor>float64_quotient (float64 ymax) (float64 ymin) (float64 resolution)\<rfloor>)
                (nat \<lfloor>float64_quotient (float64 xmax) (float64 xmin) (float64 resolution)\<rfloor>) g"
    if "rasterize_bev points intensities (xmin, xmax, ymin, ymax) resolution reducer = Inr g" for g
    using d that by (rule rasterize_bev_shape)
  show "bev_dims (- 80, 80, - 80, 80) 0.2 = Inr (800, 800)"
    by code_simp
  show "laz_dims x y resolution =
            Some (\<lfloor>float64_quotient (np_max (map float64 x)) (np_min (map float64 x))
                     (float64 resolution)\<rfloor> + 1,
                  \<lfloor>float64_quotient (np_max (map float64 y)) (np_min (map float64 y))
                     (float64 resolution)\<rfloor> + 1)"
    if "x \<noteq> [] \<and> y \<noteq> []"
  proof -
    have "np_min (map float64 x) \<le> np_max (map float64 x)"
      "np_min (map float64 y) \<le> np_max (map float64 y)"
      using that by (simp_all add: np_min_le_np_max)
    then have "0 \<le> float64_quotient (np_max (map float64 x)) (np_min (map float64 x))
                     (float64 resolution)"
      "0 \<le> float64_quotient (np_max (map float64 y)) (np_min (map float64 y))
                     (float64 resolution)"
      using assms(3) by (simp_all add: float64_quotient_nonneg)
    then show ?thesis
      using that assms(3) by (simp add: laz_dims_def py_int_nonneg Let_def)
  qed
qed

text \<open>The theorem at the default configuration of the tool.\<close>

theorem rasterize_bev_grid_dimensions_witness:
  "bev_dims (- 80, 80, - 80, 80) 0.2 = Inr (800, 800)
   \<and> rasterize_bev [] [] (- 80, 80, - 80, 80) 0.2 ''max'' = Inr (replicate 800 (replicate 800 0))
   \<and> has_shape 800 800 (replicate 800 (replicate 800 (0::real)))
   \<and> laz_dims [- 80, 80] [- 80, 80] 0.2 = Some (801, 801)"
proof -
  let ?q = "float64_quotient (float64 80) (float64 (- 80)) (float64 0.2)"
  have h: "float64 (- 80) < float64 80" "0 < float64 0.2"
    by code_simp+
  have q: "\<lfloor>?q\<rfloor> = 800"
    by code_simp
  have m: "np_max (map float64 [- 80, 80]) = float64 80"
    "np_min (map float64 [- 80, 80]) = float64 (- 80)"
    by code_simp+
  note t = rasterize_bev_grid_dimensions[OF h(1) h(1) h(2),
      of "[]" "[]" "''max''" "[- 80, 80]" "[- 80, 80]"]
  from t have "bev_dims (- 80, 80, - 80, 80) 0.2 = Inr (\<lfloor>?q\<rfloor>, \<lfloor>?q\<rfloor>)"
    by (rule conjunct1)
  then have d: "bev_dims (- 80, 80, - 80, 80) 0.2 = Inr (800, 800)"
    by (simp only: q)
  have r: "rasterize_bev [] [] (- 80, 80, - 80, 80) 0.2 ''max'' = Inr (replicate 800 (replicate 800 0))"
    using d by (simp add: rasterize_bev_def np_zeros_def)
  from t have "\<forall>g. rasterize_bev [] [] (- 80, 80, - 80, 80) 0.2 ''max'' = Inr g
          \<longrightarrow> has_shape (nat \<lfloor>?q\<rfloor>) (nat \<lfloor>?q\<rfloor>) g"
    by (elim conjE)
  with r have "has_shape (nat \<lfloor>?q\<rfloor>) (nat \<lfloor>?q\<rfloor>) (replicate 800 (replicate 800 (0::real)))"
    by blast
  then have sh: "has_shape 800 800 (replicate 800 (replicate 800 (0::real)))"
    unfolding q by simp
  from t have "laz_dims [- 80, 80] [- 80, 80] 0.2 =
            Some (\<lfloor>float64_quotient (np_max (map float64 [- 80, 80])) (np_min (map float64 [- 80, 80]))
                     (float64 0.2)\<rfloor> + 1,
                  \<lfloor>float64_quotient (np_max (map float64 [- 80, 80])) (np_min (map float64 [- 80, 80]))
                     (float64 0.2)\<rfloor> + 1)"
    by simp
  then have "laz_dims [- 80, 80] [- 80, 80] 0.2 = Some (801, 801)"
    by (simp only: m q) simp
  with d r sh show ?thesis by (intro conjI)
qed

text \<open>
  Claim C1 as stated fails twice. The extent \<open>(0, 0.3, 0, 0.3)\<close> at resolution \<open>0.1\<close> has
  the exact quotient 3, and \<open>rasterize_bev\<close> computes \<open>2 \<times> 2\<close>: the \<^verbatim>\<open>float64\<close> quotient
  is just below 3. And in \<open>convert_laz_to_png.py\<close> points spanning \<open>-80 \<dots> 80\<close> in both
  directions at resolution \<open>0.2\<close> give an \<open>801 \<times> 801\<close> raster, not the \<open>800 \<times> 800\<close> of
  the floor formula.
\<close>

theorem grid_dimensions_counterexample:
  "bev_dims (0, 0.3, 0, 0.3) 0.1 = Inr (2, 2)
   \<and> \<lfloor>(0.3 - 0) / (0.1::real)\<rfloor> = 3
   \<and> laz_dims [- 80, 80] [- 80, 80] 0.2 = Some (801, 801)
   \<and> \<lfloor>(80 - (- 80)) / (0.2::real)\<rfloor> = 800"
  by code_simp

text \<open>
  Two more configurations whose exact quotient is an integer and whose \<^verbatim>\<open>float64\<close>
  quotient lies just below it.
\<close>

lemma float64_quotient_below_integer:
  "bev_dims (- 35, 35, - 35, 35) 0.07 = Inr (999, 999)"
  "laz_dims [0, 0.3] [0, 0.3] 0.1 = Some (3, 3)"
  by code_simp+

subsection \<open>The reducers\<close>

lemma grid_ext:
  assumes "has_shape h w a" "has_shape h w b" "\<forall>r<h. \<forall>c<w. a ! r ! c = b ! r ! c"
  shows "a = b"
proof (rule nth_equalityI)
  show "length a = length b"
    using assms by (simp add: has_shape_def)
  fix r assume "r < length a"
  then have r: "r < h" using assms(1) by (simp add: has_shape_def)
  show "a ! r = b ! r"
  proof (rule nth_equalityI)
    show "length (a ! r) = length (b ! r)"
      using assms r by (simp add: has_shape_nth)
    fix c assume "c < length (a ! r)"
    then have "c < w" using assms(1) r by (simp add: has_shape_nth)
    then show "a ! r ! c = b ! r ! c" using assms(3) r by simp
  qed
qed

text \<open>Both loops on a grid of zeros, for a configuration with at least one row and column.\<close>

lemma reducer_loop_zeros:
  assumes "length intensities = length points" "1 \<le> width" "1 \<le> height"
    and "pixels = bev_pixels points intensities extent resolution width height"
  shows "\<exists>ig cg. reducer_loop f pixels
             (replicate (nat height) (replicate (nat width) 0),
              replicate (nat height) (replicate (nat width) 0)) = Inr (ig, cg)
           \<and> has_shape (nat height) (nat width) ig \<and> has_shape (nat height) (nat width) cg
           \<and> (\<forall>r<nat height. \<forall>c<nat width.
                 ig ! r ! c = fold (\<lambda>v a. f a v) (cell_values r c pixels) 0
                 \<and> cg ! r ! c = length (cell_values r c pixels))"
proof -
  let ?z = "replicate (nat height) (replicate (nat width) (0::real))"
  let ?zc = "replicate (nat height) (replicate (nat width) (0::nat))"
  have rng: "\<forall>(px, py, v) \<in> set pixels.
      0 \<le> px \<and> px < int (nat width) \<and> 0 \<le> py \<and> py < int (nat height)"
    unfolding assms(4) using assms(1-3) by (rule bev_pixels_in_range)
  have "\<exists>ig cg. reducer_loop f pixels (?z, ?zc) = Inr (ig, cg)
           \<and> has_shape (nat height) (nat width) ig \<and> has_shape (nat height) (nat width) cg
           \<and> (\<forall>r<nat height. \<forall>c<nat width.
                 ig ! r ! c = fold (\<lambda>v a. f a v) (cell_values r c pixels) (?z ! r ! c)
                 \<and> cg ! r ! c = ?zc ! r ! c + length (cell_values r c pixels))"
    using has_shape_replicate has_shape_replicate rng by (rule reducer_loop_cells)
  then show ?thesis by simp
qed

lemma mset_bev_pixels:
  assumes "length intensities = length points" "length intensities' = length points'"
    and "mset (zip points' intensities') = mset (zip points intensities)"
  shows "mset (bev_pixels points' intensities' extent resolution width height) =
         mset (bev_pixels points intensities extent resolution width height)"
proof -
  have "mset (map g (filter P (zip points' intensities'))) =
        mset (map g (filter P (zip points intensities)))" for g :: "point \<times> real \<Rightarrow> int \<times> int \<times> real" and P
    by (simp add: assms(3))
  then show ?thesis
    using assms(1,2) by (simp only: bev_pixels_map_filter)
qed

lemma set_cell_values_mset:
  assumes "mset pixels' = mset pixels"
  shows "set (cell_values r c pixels') = set (cell_values r c pixels)"
    and "sum_list (cell_values r c pixels') = sum_list (cell_values r c pixels)"
    and "length (cell_values r c pixels') = length (cell_values r c pixels)"
proof -
  have m: "mset (cell_values r c pixels') = mset (cell_values r c pixels)"
    unfolding cell_values_def by (simp add: assms)
  show "set (cell_values r c pixels') = set (cell_values r c pixels)"
    using m by (rule mset_eq_setD)
  show "sum_list (cell_values r c pixels') = sum_list (cell_values r c pixels)"
    using m sum_mset_sum_list[of "cell_values r c pixels'"] sum_mset_sum_list[of "cell_values r c pixels"]
    by simp
  show "length (cell_values r c pixels') = length (cell_values r c pixels)"
    using m by (rule mset_eq_length)
qed

lemma rasterize_bev_max_cells:
  assumes "bev_dims (xmin, xmax, ymin, ymax) resolution = Inr (width, height)"
    and "1 \<le> width" "1 \<le> height"
    and "length intensities = length points"
  shows "\<exists>g. rasterize_bev points intensities (xmin, xmax, ymin, ymax) resolution ''max'' = Inr g
     \<and> has_shape (nat height) (nat width) g
     \<and> (\<forall>r<nat height. \<forall>c<nat width.
           g ! r ! c = Max (insert 0 (set (cell_values r c
             (bev_pixels points intensities (xmin, xmax, ymin, ymax) resolution width height)))))"
proof -
  let ?e = "(xmin, xmax, ymin, ymax)"
  let ?px = "bev_pixels points intensities ?e resolution width height"
  note d = assms(1)
  obtain ig cg where run: "reducer_loop max ?px
             (replicate (nat height) (replicate (nat width) 0),
              replicate (nat height) (replicate (nat width) 0)) = Inr (ig, cg)"
    and sh: "has_shape (nat height) (nat width) ig"
    and cells: "\<forall>r<nat height. \<forall>c<nat width.
                 ig ! r ! c = fold (\<lambda>v a. max a v) (cell_values r c ?px) 0
                 \<and> cg ! r ! c = length (cell_values r c ?px)"
    using reducer_loop_zeros[OF assms(4,2,3) refl, of max ?e resolution] by blast
  have "rasterize_bev points intensities ?e resolution ''max'' = Inr ig"
    using rasterize_bev_loops[OF d _ _ assms(4), of "''max''"] assms(2,3) run
    by (simp add: Let_def)
  then show ?thesis
    using sh cells by (simp add: fold_max_Max)
qed

lemma rasterize_bev_mean_cells:
  assumes "bev_dims (xmin, xmax, ymin, ymax) resolution = Inr (width, height)"
    and "1 \<le> width" "1 \<le> height"
    and "length intensities = length points"
  shows "\<exists>g. rasterize_bev points intensities (xmin, xmax, ymin, ymax) resolution ''mean'' = Inr g
     \<and> has_shape (nat height) (nat width) g
     \<and> (\<forall>r<nat height. \<forall>c<nat width.
           g ! r ! c =
             (let vs = cell_values r c
                (bev_pixels points intensities (xmin, xmax, ymin, ymax) resolution width height)
              in if vs = [] then 0 else sum_list vs / real (length vs)))"
proof -
  let ?e = "(xmin, xmax, ymin, ymax)"
  let ?px = "bev_pixels points intensities ?e resolution width height"
  note d = assms(1)
  obtain ig cg where run: "reducer_loop (+) ?px
             (replicate (nat height) (replicate (nat width) 0),
              replicate (nat height) (replicate (nat width) 0)) = Inr (ig, cg)"
    and sh: "has_shape (nat height) (nat width) ig" "has_shape (nat height) (nat width) cg"
    and cells: "\<forall>r<nat height. \<forall>c<nat width.
                 ig ! r ! c = fold (\<lambda>v a. a + v) (cell_values r c ?px) 0
                 \<and> cg ! r ! c = length (cell_values r c ?px)"
    using reducer_loop_zeros[OF assms(4,2,3) refl, of "(+)" ?e resolution] by blast
  have res: "rasterize_bev points intensities ?e resolution ''mean'' = Inr (divide_by_count ig cg)"
    using rasterize_bev_loops[OF d _ _ assms(4), of "''mean''"] assms(2,3) run
    by (simp add: Let_def)
  have "divide_by_count ig cg ! r ! c =
          (let vs = cell_values r c ?px in if vs = [] then 0 else sum_list vs / real (length vs))"
    if rc: "r < nat height" "c < nat width" for r c
  proof -
    have "ig ! r ! c = sum_list (cell_values r c ?px)" "cg ! r ! c = length (cell_values r c ?px)"
      using cells rc by (simp_all add: fold_plus_sum)
    moreover have "divide_by_count ig cg ! r ! c =
       (if cg ! r ! c > 0 then ig ! r ! c / real (cg ! r ! c) else ig ! r ! c)"
      using sh rc by (rule divide_by_count_nth)
    ultimately show ?thesis by (simp add: Let_def)
  qed
  then show ?thesis
    using res divide_by_count_shape[OF sh] by blast
qed

text \<open>
  Claim C4. With the max reducer, each cell of the result is the maximum of the initial
  zero and the intensities of the in-extent points mapped to that cell (a cell that
  receives the intensities 10, 200 and 50 holds 200), and a consistent permutation of
  the frame's points and intensities leaves the output grid unchanged. Here \<open>width\<close> and
  \<open>height\<close> are the dimensions the code computes, at least 1 each.
\<close>

theorem max_reducer_cell_maximum:
  assumes "bev_dims (xmin, xmax, ymin, ymax) resolution = Inr (width, height)"
    and "1 \<le> width" "1 \<le> height"
    and "length intensities = length points" "length intensities' = length points'"
    and "mset (zip points' intensities') = mset (zip points intensities)"
    and "pixels = bev_pixels points intensities (xmin, xmax, ymin, ymax) resolution width height"
  shows "\<exists>g. rasterize_bev points intensities (xmin, xmax, ymin, ymax) resolution ''max'' = Inr g
     \<and> has_shape (nat height) (nat width) g
     \<and> (\<forall>r<nat height. \<forall>c<nat width. g ! r ! c = Max (insert 0 (set (cell_values r c pixels))))
     \<and> (\<forall>r<nat height. \<forall>c<nat width. cell_values r c pixels = [10, 200, 50] \<longrightarrow> g ! r ! c = 200)
     \<and> rasterize_bev points' intensities' (xmin, xmax, ymin, ymax) resolution ''max'' = Inr g"
proof -
  let ?e = "(xmin, xmax, ymin, ymax)"
  let ?px' = "bev_pixels points' intensities' ?e resolution width height"
  obtain g where g: "rasterize_bev points intensities ?e resolution ''max'' = Inr g"
    and sh: "has_shape (nat height) (nat width) g"
    and cells: "\<forall>r<nat height. \<forall>c<nat width. g ! r ! c = Max (insert 0 (set (cell_values r c pixels)))"
    unfolding assms(7) using rasterize_bev_max_cells[OF assms(1-4)] by blast
  obtain g' where g': "rasterize_bev points' intensities' ?e resolution ''max'' = Inr g'"
    and sh': "has_shape (nat height) (nat width) g'"
    and cells': "\<forall>r<nat height. \<forall>c<nat width. g' ! r ! c = Max (insert 0 (set (cell_values r c ?px')))"
    using rasterize_bev_max_cells[OF assms(1-3,5)] by blast
  have "mset ?px' = mset pixels"
    unfolding assms(7) using assms(4-6) by (rule mset_bev_pixels)
  then have "set (cell_values r c ?px') = set (cell_values r c pixels)" for r c
    by (rule set_cell_values_mset)
  then have "\<forall>r<nat height. \<forall>c<nat width. g' ! r ! c = g ! r ! c"
    using cells cells' by simp
  with sh' sh have "g' = g" by (rule grid_ext)
  moreover have "\<forall>r<nat height. \<forall>c<nat width. cell_values r c pixels = [10, 200, 50] \<longrightarrow> g ! r ! c = 200"
    using cells by simp
  ultimately show ?thesis
    using g g' sh cells by blast
qed

text \<open>
  Three points of one cell with the intensities 10, 200 and 50, and the same frame with
  its points supplied in another order.
\<close>

theorem max_reducer_cell_maximum_witness:
  "rasterize_bev [(0.2, 0.3, 0), (0.5, 0.5, 1), (0.9, 0.1, 2)] [10, 200, 50] (0, 1, 0, 1) 1 ''max''
     = Inr [[200]]
   \<and> rasterize_bev [(0.9, 0.1, 2), (0.2, 0.3, 0), (0.5, 0.5, 1)] [50, 10, 200] (0, 1, 0, 1) 1 ''max''
     = Inr [[200]]"
proof -
  let ?P = "[(0.2, 0.3, 0), (0.5, 0.5, 1), (0.9, 0.1, 2)] :: point list"
  let ?P' = "[(0.9, 0.1, 2), (0.2, 0.3, 0), (0.5, 0.5, 1)] :: point list"
  let ?I = "[10, 200, 50] :: real list"
  let ?I' = "[50, 10, 200] :: real list"
  let ?px = "[(0, 0, 10), (0, 0, 200), (0, 0, 50)] :: (int \<times> int \<times> real) list"
  have px: "?px = bev_pixels ?P ?I (0, 1, 0, 1) 1 1 1"
    by (simp add: bev_pixels_def valid_mask_def mask_select_def py_int_def np_clip_def)
  have cv: "cell_values 0 0 ?px = [10, 200, 50]"
    by (simp add: cell_values_def)
  have ms: "mset (zip ?P' ?I') = mset (zip ?P ?I)"
    by simp
  have d: "bev_dims (0, 1, 0, 1) 1 = Inr (1, 1)"
    by code_simp
  from max_reducer_cell_maximum[of 0 1 0 1 1 1 1 ?I ?P ?I' ?P' ?px, OF d _ _ _ _ ms px]
  obtain g where g: "rasterize_bev ?P ?I (0, 1, 0, 1) 1 ''max'' = Inr g"
    and sh: "has_shape 1 1 g"
    and c: "\<forall>r<nat 1. \<forall>c<nat 1. cell_values r c ?px = [10, 200, 50] \<longrightarrow> g ! r ! c = 200"
    and g': "rasterize_bev ?P' ?I' (0, 1, 0, 1) 1 ''max'' = Inr g"
    by auto
  from c cv have "g ! 0 ! 0 = 200" by simp
  moreover from sh have "length g = 1" "length (g ! 0) = 1"
    by (simp_all add: has_shape_def list_all_length)
  ultimately have "g = [[200]]"
    by (metis (no_types, lifting) length_0_conv length_Suc_conv nth_Cons_0 One_nat_def)
  with g g' show ?thesis by simp
qed

text \<open>
  Claim C5. With the mean reducer (and \<open>width\<close>, \<open>height\<close> the dimensions the code
  computes, at least 1 each) the loop leaves in every cell the sum and the number
  of the intensities of the in-extent points mapped to it; the result holds
  \<open>sum / count\<close> in every cell with a positive count and 0 in every other cell. A cell that
  receives the intensities 10, 200 and 50 holds \<open>260 / 3\<close>, within one unit of 86.667.
\<close>

theorem mean_reducer_sum_over_count:
  assumes "bev_dims (xmin, xmax, ymin, ymax) resolution = Inr (width, height)"
    and "1 \<le> width" "1 \<le> height"
    and "length intensities = length points"
    and "pixels = bev_pixels points intensities (xmin, xmax, ymin, ymax) resolution width height"
  shows "\<exists>sum_grid count_grid g.
       reducer_loop (+) pixels
         (replicate (nat height) (replicate (nat width) 0),
          replicate (nat height) (replicate (nat width) 0)) = Inr (sum_grid, count_grid)
     \<and> rasterize_bev points intensities (xmin, xmax, ymin, ymax) resolution ''mean'' = Inr g
     \<and> has_shape (nat height) (nat width) g
     \<and> (\<forall>r<nat height. \<forall>c<nat width.
           sum_grid ! r ! c = sum_list (cell_values r c pixels)
         \<and> count_grid ! r ! c = length (cell_values r c pixels)
         \<and> (count_grid ! r ! c > 0 \<longrightarrow> g ! r ! c = sum_grid ! r ! c / real (count_grid ! r ! c))
         \<and> (count_grid ! r ! c = 0 \<longrightarrow> g ! r ! c = 0)
         \<and> (cell_values r c pixels = [10, 200, 50] \<longrightarrow>
               g ! r ! c = 260 / 3 \<and> \<bar>g ! r ! c - 86.667\<bar> \<le> 1))"
proof -
  let ?e = "(xmin, xmax, ymin, ymax)"
  note d = assms(1)
  obtain ig cg where run: "reducer_loop (+) pixels
             (replicate (nat height) (replicate (nat width) 0),
              replicate (nat height) (replicate (nat width) 0)) = Inr (ig, cg)"
    and sh: "has_shape (nat height) (nat width) ig" "has_shape (nat height) (nat width) cg"
    and cells: "\<forall>r<nat height. \<forall>c<nat width.
                 ig ! r ! c = fold (\<lambda>v a. a + v) (cell_values r c pixels) 0
                 \<and> cg ! r ! c = length (cell_values r c pixels)"
    using reducer_loop_zeros[OF assms(4,2,3,5), of "(+)"] by blast
  have res: "rasterize_bev points intensities ?e resolution ''mean'' = Inr (divide_by_count ig cg)"
    using rasterize_bev_loops[OF d _ _ assms(4), of "''mean''"] assms(2,3) run
    by (simp add: Let_def flip: assms(5))
  have cell: "ig ! r ! c = sum_list (cell_values r c pixels)
         \<and> cg ! r ! c = length (cell_values r c pixels)
         \<and> (cg ! r ! c > 0 \<longrightarrow> divide_by_count ig cg ! r ! c = ig ! r ! c / real (cg ! r ! c))
         \<and> (cg ! r ! c = 0 \<longrightarrow> divide_by_count ig cg ! r ! c = 0)
         \<and> (cell_values r c pixels = [10, 200, 50] \<longrightarrow>
               divide_by_count ig cg ! r ! c = 260 / 3
               \<and> \<bar>divide_by_count ig cg ! r ! c - 86.667\<bar> \<le> 1)"
    if rc: "r < nat height" "c < nat width" for r c
  proof -
    have s: "ig ! r ! c = sum_list (cell_values r c pixels)"
      and n: "cg ! r ! c = length (cell_values r c pixels)"
      using cells rc by (simp_all add: fold_plus_sum)
    have dv: "divide_by_count ig cg ! r ! c =
       (if cg ! r ! c > 0 then ig ! r ! c / real (cg ! r ! c) else ig ! r ! c)"
      using sh rc by (rule divide_by_count_nth)
    have pos: "divide_by_count ig cg ! r ! c = ig ! r ! c / real (cg ! r ! c)" if "cg ! r ! c > 0"
      using that dv by simp
    have zero: "divide_by_count ig cg ! r ! c = 0" if "cg ! r ! c = 0"
      using that dv s n by simp
    have ex: "divide_by_count ig cg ! r ! c = 260 / 3
               \<and> \<bar>divide_by_count ig cg ! r ! c - 86.667\<bar> \<le> 1"
      if "cell_values r c pixels = [10, 200, 50]"
      using that dv s n by simp
    from s n pos zero ex show ?thesis
      by blast
  qed
  show ?thesis
  proof (intro exI conjI)
    show "reducer_loop (+) pixels
         (replicate (nat height) (replicate (nat width) 0),
          replicate (nat height) (replicate (nat width) 0)) = Inr (ig, cg)"
      by (rule run)
    show "rasterize_bev points intensities ?e resolution ''mean'' = Inr (divide_by_count ig cg)"
      by (rule res)
    show "has_shape (nat height) (nat width) (divide_by_count ig cg)"
      using sh by (rule divide_by_count_shape)
    show "\<forall>r<nat height. \<forall>c<nat width.
           ig ! r ! c = sum_list (cell_values r c pixels)
         \<and> cg ! r ! c = length (cell_values r c pixels)
         \<and> (cg ! r ! c > 0 \<longrightarrow> divide_by_count ig cg ! r ! c = ig ! r ! c / real (cg ! r ! c))
         \<and> (cg ! r ! c = 0 \<longrightarrow> divide_by_count ig cg ! r ! c = 0)
         \<and> (cell_values r c pixels = [10, 200, 50] \<longrightarrow>
               divide_by_count ig cg ! r ! c = 260 / 3
               \<and> \<bar>divide_by_count ig cg ! r ! c - 86.667\<bar> \<le> 1)"
      using cell by (intro allI impI)
  qed
qed

text \<open>
  A frame of four in-extent points on a \<open>1 \<times> 2\<close> grid: three points with the intensities
  10, 200 and 50 in the left cell, one point in the right cell.
\<close>

theorem mean_reducer_sum_over_count_witness:
  "rasterize_bev [(0.2, 0.3, 0), (0.5, 0.5, 1), (1.5, 0.5, 0), (0.9, 0.1, 2)] [10, 200, 7, 50]
     (0, 2, 0, 1) 1 ''mean'' = Inr [[260 / 3, 7]]"
proof -
  let ?P = "[(0.2, 0.3, 0), (0.5, 0.5, 1), (1.5, 0.5, 0), (0.9, 0.1, 2)] :: point list"
  let ?I = "[10, 200, 7, 50] :: real list"
  let ?px = "[(0, 0, 10), (0, 0, 200), (1, 0, 7), (0, 0, 50)] :: (int \<times> int \<times> real) list"
  have px: "?px = bev_pixels ?P ?I (0, 2, 0, 1) 1 2 1"
    by (simp add: bev_pixels_def valid_mask_def mask_select_def py_int_def np_clip_def)
  have cv: "cell_values 0 0 ?px = [10, 200, 50]" "cell_values 0 1 ?px = [7]"
    by (simp_all add: cell_values_def)
  have d: "bev_dims (0, 2, 0, 1) 1 = Inr (2, 1)"
    by code_simp
  from mean_reducer_sum_over_count[of 0 2 0 1 1 2 1 ?I ?P ?px, OF d _ _ _ px]
  obtain sum_grid count_grid g
    where g: "rasterize_bev ?P ?I (0, 2, 0, 1) 1 ''mean'' = Inr g"
    and sh: "has_shape 1 2 g"
    and c: "\<forall>r<nat 1. \<forall>c<nat 2.
           sum_grid ! r ! c = sum_list (cell_values r c ?px)
         \<and> count_grid ! r ! c = length (cell_values r c ?px)
         \<and> (count_grid ! r ! c > 0 \<longrightarrow> g ! r ! c = sum_grid ! r ! c / real (count_grid ! r ! c))
         \<and> (count_grid ! r ! c = 0 \<longrightarrow> g ! r ! c = 0)
         \<and> (cell_values r c ?px = [10, 200, 50] \<longrightarrow>
               g ! r ! c = 260 / 3 \<and> \<bar>g ! r ! c - 86.667\<bar> \<le> 1)"
    by auto
  from c cv have "g ! 0 ! 0 = 260 / 3" by simp
  moreover from c cv have "g ! 0 ! 1 = 7"
    by (simp add: numeral_2_eq_2)
  moreover have "has_shape 1 2 [[260 / 3, 7 :: real]]"
    by (simp add: has_shape_def)
  ultimately have "g = [[260 / 3, 7]]"
    using sh by (intro grid_ext[of 1 2]) (auto simp add: less_Suc_eq numeral_2_eq_2)
  with g show ?thesis by simp
qed

subsection \<open>The extent filter and the clamp\<close>

lemma rasterize_bev_valid_total:
  assumes "bev_dims (xmin, xmax, ymin, ymax) resolution = Inr (width, height)"
    and "1 \<le> width" "1 \<le> height"
    and "length intensities = length points"
  shows "\<exists>g. rasterize_bev points intensities (xmin, xmax, ymin, ymax) resolution reducer = Inr g"
proof -
  let ?e = "(xmin, xmax, ymin, ymax)"
  let ?px = "bev_pixels points intensities ?e resolution width height"
  note d = assms(1)
  have "\<exists>ig cg. reducer_loop f ?px
             (replicate (nat height) (replicate (nat width) 0),
              replicate (nat height) (replicate (nat width) 0)) = Inr (ig, cg)" for f
    using reducer_loop_zeros[OF assms(4,2,3) refl, of f ?e resolution] by blast
  from this[of max] this[of "(+)"] show ?thesis
    using rasterize_bev_loops[OF d _ _ assms(4), of reducer] assms(2,3)
    by (auto simp add: Let_def)
qed

lemma np_clip_py_int_nonneg:
  assumes "0 \<le> v"
  shows "np_clip (py_int v) 0 m = min \<lfloor>v\<rfloor> m"
proof -
  have "0 \<le> \<lfloor>v\<rfloor>" using assms by simp
  then have "max \<lfloor>v\<rfloor> 0 = \<lfloor>v\<rfloor>" by (rule max.absorb1)
  then show ?thesis
    using assms by (simp only: np_clip_def py_int_nonneg)
qed

lemma bev_pixel_in_extent:
  assumes "0 < resolution" "xmin \<le> x" "ymin \<le> y"
  shows "bev_pixel (xmin, xmax, ymin, ymax) resolution width height (x, y) =
     (min \<lfloor>(x - xmin) / resolution\<rfloor> (width - 1), min \<lfloor>(y - ymin) / resolution\<rfloor> (height - 1))"
proof -
  have "0 \<le> (x - xmin) / resolution" "0 \<le> (y - ymin) / resolution"
    using assms by simp_all
  then show ?thesis
    by (simp add: bev_pixel_def np_clip_py_int_nonneg)
qed

lemma bev_pixels_not_dropped:
  assumes "length intensities = length points"
  shows "map (\<lambda>(px, py, v). (px, py)) (bev_pixels points intensities extent resolution width height) =
         map (\<lambda>(x, y, z). bev_pixel extent resolution width height (x, y))
           (filter (in_extent extent) points)"
  using assms
proof (induction intensities points rule: list_induct2)
  case Nil
  then show ?case by (simp add: bev_pixels_map_filter)
next
  case (Cons i ins p ps)
  obtain x y z where p: "p = (x, y, z)" by (cases p) auto
  from Cons show ?case
    by (simp add: bev_pixels_map_filter p)
qed

lemma bev_pixels_cell_member:
  assumes "length intensities = length points" "k < length points"
    and "in_extent extent (points ! k)" "points ! k = (x, y, z)"
    and "bev_pixel extent resolution width height (x, y) = (px, py)" "0 \<le> px" "0 \<le> py"
  shows "intensities ! k \<in> set (cell_values (nat py) (nat px)
           (bev_pixels points intensities extent resolution width height))"
proof -
  let ?F = "\<lambda>((x, y, z), i).
            (fst (bev_pixel extent resolution width height (x, y)),
             snd (bev_pixel extent resolution width height (x, y)), i)"
  have "(points ! k, intensities ! k) \<in> set (zip points intensities)"
    using assms(1,2) by (metis in_set_zip fst_conv snd_conv)
  then have "(points ! k, intensities ! k)
      \<in> set (filter (\<lambda>(p, i). in_extent extent p) (zip points intensities))"
    using assms(3) by simp
  then have "?F (points ! k, intensities ! k)
      \<in> set (bev_pixels points intensities extent resolution width height)"
    unfolding bev_pixels_map_filter[OF assms(1)] set_map by (rule imageI)
  then have "(px, py, intensities ! k)
      \<in> set (bev_pixels points intensities extent resolution width height)"
    using assms(4,5) by simp
  then show ?thesis
    using assms(6,7) by (force simp add: cell_values_def)
qed

text \<open>
  Claim C10, amended. Whenever the grid \<open>rasterize_bev\<close> computes has at least one row and
  one column, the pixel indices of every point that passed the extent filter lie in
  \<open>0 \<dots> width - 1\<close> and \<open>0 \<dots> height - 1\<close> and address a cell of the grid, so the function
  returns a grid and raises nothing. The index of an in-extent point is the floor index
  capped at the last column and row, and the point's intensity is among the values
  accumulated in that cell: a point whose floor index equals \<open>width\<close> or \<open>height\<close> is
  folded into the last column or row, not dropped. With the max reducer the cell holds
  the maximum of these values, with the mean reducer their mean.
\<close>

theorem pixel_indices_clamped_in_bounds:
  assumes "bev_dims (xmin, xmax, ymin, ymax) resolution = Inr (width, height)"
    and "1 \<le> width" "1 \<le> height" "0 < resolution"
    and "length intensities = length points"
    and "extent = (xmin, xmax, ymin, ymax)"
    and "pixels = bev_pixels points intensities extent resolution width height"
  shows "(\<forall>(px, py, v) \<in> set pixels.
            0 \<le> px \<and> px \<le> width - 1 \<and> 0 \<le> py \<and> py \<le> height - 1
            \<and> grid_index (replicate (nat height) (replicate (nat width) (0::real))) py px
                = Some (nat py, nat px))
     \<and> (\<exists>g. rasterize_bev points intensities extent resolution reducer = Inr g)
     \<and> (\<forall>x y z. in_extent extent (x, y, z) \<longrightarrow>
           bev_pixel extent resolution width height (x, y) =
             (min \<lfloor>(x - xmin) / resolution\<rfloor> (width - 1),
              min \<lfloor>(y - ymin) / resolution\<rfloor> (height - 1)))
     \<and> map (\<lambda>(px, py, v). (px, py)) pixels =
         map (\<lambda>(x, y, z). bev_pixel extent resolution width height (x, y))
           (filter (in_extent extent) points)
     \<and> (\<forall>k<length points. \<forall>x y z. points ! k = (x, y, z) \<and> in_extent extent (x, y, z) \<longrightarrow>
           intensities ! k \<in> set (cell_values
             (nat (min \<lfloor>(y - ymin) / resolution\<rfloor> (height - 1)))
             (nat (min \<lfloor>(x - xmin) / resolution\<rfloor> (width - 1))) pixels))
     \<and> (\<exists>g. rasterize_bev points intensities extent resolution ''max'' = Inr g
           \<and> (\<forall>r<nat height. \<forall>c<nat width.
                 g ! r ! c = Max (insert 0 (set (cell_values r c pixels)))))
     \<and> (\<exists>g. rasterize_bev points intensities extent resolution ''mean'' = Inr g
           \<and> (\<forall>r<nat height. \<forall>c<nat width.
                 g ! r ! c = (let vs = cell_values r c pixels
                              in if vs = [] then 0 else sum_list vs / real (length vs))))"
proof (intro conjI)
  have rng: "\<forall>(px, py, v) \<in> set pixels.
      0 \<le> px \<and> px < int (nat width) \<and> 0 \<le> py \<and> py < int (nat height)"
    unfolding assms(7) using assms(5,2,3) by (rule bev_pixels_in_range)
  have "grid_index (replicate (nat height) (replicate (nat width) (0::real))) py px
          = Some (nat py, nat px)"
    if "0 \<le> px" "px < int (nat width)" "0 \<le> py" "py < int (nat height)" for px py
    using has_shape_replicate that(3,4,1,2) by (rule grid_index_in_range)
  with rng show "\<forall>(px, py, v) \<in> set pixels.
            0 \<le> px \<and> px \<le> width - 1 \<and> 0 \<le> py \<and> py \<le> height - 1
            \<and> grid_index (replicate (nat height) (replicate (nat width) (0::real))) py px
                = Some (nat py, nat px)"
    using assms(2,3) by fastforce
  show "\<exists>g. rasterize_bev points intensities extent resolution reducer = Inr g"
    unfolding assms(6) using assms(1,2,3,5) by (rule rasterize_bev_valid_total)
  show formula: "\<forall>x y z. in_extent extent (x, y, z) \<longrightarrow>
           bev_pixel extent resolution width height (x, y) =
             (min \<lfloor>(x - xmin) / resolution\<rfloor> (width - 1),
              min \<lfloor>(y - ymin) / resolution\<rfloor> (height - 1))"
    using assms(4) by (simp add: assms(6) in_extent_def bev_pixel_in_extent)
  show "map (\<lambda>(px, py, v). (px, py)) pixels =
         map (\<lambda>(x, y, z). bev_pixel extent resolution width height (x, y))
           (filter (in_extent extent) points)"
    unfolding assms(7) using assms(5) by (rule bev_pixels_not_dropped)
  show "\<forall>k<length points. \<forall>x y z. points ! k = (x, y, z) \<and> in_extent extent (x, y, z) \<longrightarrow>
           intensities ! k \<in> set (cell_values
             (nat (min \<lfloor>(y - ymin) / resolution\<rfloor> (height - 1)))
             (nat (min \<lfloor>(x - xmin) / resolution\<rfloor> (width - 1))) pixels)"
  proof (intro allI impI)
    fix k x y z
    assume k: "k < length points" and p: "points ! k = (x, y, z) \<and> in_extent extent (x, y, z)"
    let ?px = "min \<lfloor>(x - xmin) / resolution\<rfloor> (width - 1)"
    let ?py = "min \<lfloor>(y - ymin) / resolution\<rfloor> (height - 1)"
    have bp: "bev_pixel extent resolution width height (x, y) = (?px, ?py)"
      using formula p by blast
    have "0 \<le> (x - xmin) / resolution" "0 \<le> (y - ymin) / resolution"
      using p assms(4) by (simp_all add: assms(6) in_extent_def)
    then have "0 \<le> \<lfloor>(x - xmin) / resolution\<rfloor>" "0 \<le> \<lfloor>(y - ymin) / resolution\<rfloor>"
      by simp_all
    then have nn: "0 \<le> ?px" "0 \<le> ?py" using assms(2,3) by simp_all
    have ie: "in_extent extent (points ! k)" using p by simp
    show "intensities ! k \<in> set (cell_values (nat ?py) (nat ?px) pixels)"
      unfolding assms(7) using assms(5) k ie conjunct1[OF p] bp nn
      by (rule bev_pixels_cell_member)
  qed
  show "\<exists>g. rasterize_bev points intensities extent resolution ''max'' = Inr g
           \<and> (\<forall>r<nat height. \<forall>c<nat width.
                 g ! r ! c = Max (insert 0 (set (cell_values r c pixels))))"
    unfolding assms(6,7) using rasterize_bev_max_cells[OF assms(1,2,3,5)] by blast
  show "\<exists>g. rasterize_bev points intensities extent resolution ''mean'' = Inr g
           \<and> (\<forall>r<nat height. \<forall>c<nat width.
                 g ! r ! c = (let vs = cell_values r c pixels
                              in if vs = [] then 0 else sum_list vs / real (length vs)))"
    unfolding assms(6,7) using rasterize_bev_mean_cells[OF assms(1,2,3,5)] by blast
qed

text \<open>
  An extent of \<open>1.5\<close> metres at one metre per pixel has one column and one row; the
  in-extent point \<open>(1.2, 1.3)\<close> has the floor indices \<open>(1, 1)\<close> and its intensity 5 lands
  in cell \<open>(0, 0)\<close>.
\<close>

theorem pixel_indices_clamped_in_bounds_witness:
  "\<lfloor>(1.2 - 0) / (1::real)\<rfloor> = 1
   \<and> bev_dims (0, 1.5, 0, 1.5) 1 = Inr (1, 1)
   \<and> bev_pixel (0, 1.5, 0, 1.5) 1 1 1 (1.2, 1.3) = (0, 0)
   \<and> bev_pixels [(1.2, 1.3, 0), (2, 2, 0)] [5, 6] (0, 1.5, 0, 1.5) 1 1 1 = [(0, 0, 5)]
   \<and> (\<exists>g. rasterize_bev [(1.2, 1.3, 0), (2, 2, 0)] [5, 6] (0, 1.5, 0, 1.5) 1 ''max'' = Inr g
         \<and> g ! 0 ! 0 = 5)"
proof -
  let ?P = "[(1.2, 1.3, 0), (2, 2, 0)] :: point list"
  let ?px = "[(0, 0, 5)] :: (int \<times> int \<times> real) list"
  have d: "bev_dims (0, 1.5, 0, 1.5) 1 = Inr (1, 1)"
    by code_simp
  have e: "in_extent (0, 1.5, 0, 1.5) (1.2, 1.3, 0)"
    by (simp add: in_extent_def)
  have px: "?px = bev_pixels ?P [5, 6] (0, 1.5, 0, 1.5) 1 1 1"
    by (simp add: bev_pixels_def valid_mask_def mask_select_def py_int_def np_clip_def)
  have cv: "cell_values 0 0 ?px = [5]"
    by (simp add: cell_values_def)
  note t = pixel_indices_clamped_in_bounds[OF d _ _ _ _ refl px, where reducer = "''max''"]
  have bp: "bev_pixel (0, 1.5, 0, 1.5) 1 1 1 (1.2, 1.3) = (0, 0)"
    using t e by simp
  from t obtain g where
    g: "rasterize_bev ?P [5, 6] (0, 1.5, 0, 1.5) 1 ''max'' = Inr g"
    and c: "\<forall>r<nat 1. \<forall>c<nat 1. g ! r ! c = Max (insert 0 (set (cell_values r c ?px)))"
    by auto
  from c cv have "g ! 0 ! 0 = 5" by simp
  with g d bp px show ?thesis by simp
qed

text \<open>
  Claim C10 as stated fails where the grid has no column or row: for the extent
  \<open>(0, 0.5, 0, 0.5)\<close> at one metre per pixel \<open>width = height = 0\<close>, the in-extent point
  \<open>(0.2, 0.2)\<close> has the floor index \<open>0 = width\<close>, the clamp to \<open>[0, -1]\<close> yields \<open>-1\<close>, and
  the write to the empty grid raises \<^verbatim>\<open>IndexError\<close>.
\<close>

theorem empty_grid_index_error_counterexample:
  "in_extent (0, 0.5, 0, 0.5) (0.2, 0.2, 0)
   \<and> bev_dims (0, 0.5, 0, 0.5) 1 = Inr (0, 0)
   \<and> bev_pixels [(0.2, 0.2, 0)] [5] (0, 0.5, 0, 0.5) 1 0 0 = [(- 1, - 1, 5)]
   \<and> rasterize_bev [(0.2, 0.2, 0)] [5] (0, 0.5, 0, 0.5) 1 ''max'' = Inl IndexError"
proof -
  have d: "bev_dims (0, 0.5, 0, 0.5) 1 = Inr (0, 0)"
    by code_simp
  have px: "bev_pixels [(0.2, 0.2, 0)] [5] (0, 0.5, 0, 0.5) 1 0 0 = [(- 1, - 1, 5)]"
    by (simp add: bev_pixels_def valid_mask_def mask_select_def py_int_def np_clip_def)
  have "rasterize_bev [(0.2, 0.2, 0)] [5] (0, 0.5, 0, 0.5) 1 ''max'' = Inl IndexError"
    using d px
    by (simp add: rasterize_bev_def np_zeros_def valid_mask_def grid_index_def np_index_def)
  with d px show ?thesis by (simp add: in_extent_def)
qed

subsection \<open>Points outside the extent\<close>

lemma rasterize_bev_filtered:
  assumes "length intensities = length points" "length intensities' = length points'"
    and "filter (\<lambda>(p, i). in_extent extent p) (zip points' intensities') =
         filter (\<lambda>(p, i). in_extent extent p) (zip points intensities)"
  shows "rasterize_bev points' intensities' extent resolution reducer =
         rasterize_bev points intensities extent resolution reducer"
proof (cases "bev_dims extent resolution")
  case (Inl e)
  then show ?thesis by (simp add: rasterize_bev_def)
next
  case (Inr d)
  obtain width height where d: "bev_dims extent resolution = Inr (width, height)"
    using Inr by (cases d) auto
  show ?thesis
  proof (cases "height < 0 \<or> width < 0")
    case True
    then show ?thesis by (simp add: rasterize_bev_def d np_zeros_def)
  next
    case False
    then have nn: "0 \<le> width" "0 \<le> height" by auto
    have "bev_pixels points' intensities' extent resolution width height =
          bev_pixels points intensities extent resolution width height"
      using assms by (simp add: bev_pixels_map_filter)
    then show ?thesis
      by (simp add: rasterize_bev_loops[OF d nn assms(1)] rasterize_bev_loops[OF d nn assms(2)])
  qed
qed

text \<open>
  Claim C2. Two frames whose in-extent points (with their intensities, in order) agree
  rasterise to the same result, whatever points outside the half-open region
  \<open>[xmin, xmax) \<times> [ymin, ymax)\<close> they contain and however those are ordered or
  repeated: such points raise nothing and touch no cell. A frame of nothing but
  out-of-extent points yields the grid of zeros.
\<close>

theorem out_of_extent_points_dropped:
  assumes "length intensities = length points" "length intensities' = length points'"
    and "filter (\<lambda>(p, i). in_extent extent p) (zip points' intensities') =
         filter (\<lambda>(p, i). in_extent extent p) (zip points intensities)"
  shows "rasterize_bev points' intensities' extent resolution reducer =
         rasterize_bev points intensities extent resolution reducer
     \<and> (\<forall>width height. bev_dims extent resolution = Inr (width, height)
            \<and> 0 \<le> width \<and> 0 \<le> height \<and> (\<forall>p \<in> set points. \<not> in_extent extent p) \<longrightarrow>
          rasterize_bev points intensities extent resolution reducer =
            Inr (replicate (nat height) (replicate (nat width) 0)))"
proof (intro conjI allI impI)
  show "rasterize_bev points' intensities' extent resolution reducer =
         rasterize_bev points intensities extent resolution reducer"
    using assms by (rule rasterize_bev_filtered)
  fix width height
  assume a: "bev_dims extent resolution = Inr (width, height)
            \<and> 0 \<le> width \<and> 0 \<le> height \<and> (\<forall>p \<in> set points. \<not> in_extent extent p)"
  then have "\<not> list_ex (\<lambda>b. b) (valid_mask extent points)"
    by (simp add: valid_mask_in_extent list_ex_iff)
  then have "bev_pixels points intensities extent resolution width height = []"
    by (rule bev_pixels_no_valid)
  then show "rasterize_bev points intensities extent resolution reducer =
            Inr (replicate (nat height) (replicate (nat width) 0))"
    using a rasterize_bev_loops[of extent resolution width height intensities points reducer] assms(1)
    by (simp add: divide_by_count_zero Let_def)
qed

text \<open>
  One in-extent point; then the same frame with three points outside the extent, one of
  them twice.
\<close>

theorem out_of_extent_points_dropped_witness:
  "rasterize_bev [(5, 5, 0), (0.5, 0.5, 0), (- 1, 0.5, 0), (5, 5, 0)] [1, 9, 3, 1] (0, 1, 0, 1) 1 ''max''
     = rasterize_bev [(0.5, 0.5, 0)] [9] (0, 1, 0, 1) 1 ''max''
   \<and> rasterize_bev [(0.5, 0.5, 0)] [9] (0, 1, 0, 1) 1 ''max'' = Inr [[9]]
   \<and> rasterize_bev [(5, 5, 0), (- 1, 0.5, 0)] [1, 3] (0, 1, 0, 1) 1 ''max'' = Inr [[0]]"
proof -
  have d: "bev_dims (0, 1, 0, 1) 1 = Inr (1, 1)"
    by code_simp
  have r: "rasterize_bev [(0.5, 0.5, 0)] [9] (0, 1, 0, 1) 1 ''max'' = Inr [[9]]"
    using d
    by (simp add: rasterize_bev_def np_zeros_def bev_pixels_def valid_mask_def
      mask_select_def py_int_def np_clip_def grid_index_def np_index_def)
  from out_of_extent_points_dropped[of "[9]" "[(0.5, 0.5, 0)]" "[1, 9, 3, 1]"
      "[(5, 5, 0), (0.5, 0.5, 0), (- 1, 0.5, 0), (5, 5, 0)]" "(0, 1, 0, 1)" 1 "''max''"]
  have "rasterize_bev [(5, 5, 0), (0.5, 0.5, 0), (- 1, 0.5, 0), (5, 5, 0)] [1, 9, 3, 1] (0, 1, 0, 1) 1 ''max''
     = rasterize_bev [(0.5, 0.5, 0)] [9] (0, 1, 0, 1) 1 ''max''"
    by (simp add: in_extent_def)
  moreover have "rasterize_bev [(5, 5, 0), (- 1, 0.5, 0)] [1, 3] (0, 1, 0, 1) 1 ''max'' = Inr [[0]]"
    using d by (simp add: rasterize_bev_def np_zeros_def valid_mask_def)
  ultimately show ?thesis using r by simp
qed

subsection \<open>Normalisation\<close>

lemma cell_in_concat:
  assumes "has_shape h w g" "r < h" "c < w"
  shows "g ! r ! c \<in> set (concat g)"
proof -
  have "g ! r \<in> set g"
    using assms(1,2) by (simp add: has_shape_def)
  moreover have "g ! r ! c \<in> set (g ! r)"
    using assms by (simp add: has_shape_nth)
  ultimately show ?thesis by auto
qed

lemma concat_cell:
  assumes "has_shape h w g" "v \<in> set (concat g)"
  shows "\<exists>r<h. \<exists>c<w. v = g ! r ! c"
proof -
  from assms(2) obtain row where row: "row \<in> set g" "v \<in> set row" by auto
  from row(1) obtain r where r: "r < length g" "row = g ! r"
    by (auto simp add: in_set_conv_nth)
  from row(2) obtain c where c: "c < length row" "v = row ! c"
    by (auto simp add: in_set_conv_nth)
  have "r < h" using r(1) assms(1) by (simp add: has_shape_def)
  moreover have "c < w" using c(1) r assms(1) by (simp add: has_shape_def list_all_length)
  ultimately show ?thesis using r(2) c(2) by blast
qed

lemma concat_nonempty:
  assumes "has_shape h w g" "1 \<le> h" "1 \<le> w"
  shows "concat g \<noteq> []"
proof -
  have "g ! 0 ! 0 \<in> set (concat g)"
    using assms by (intro cell_in_concat[of h w]) auto
  then show ?thesis by (metis empty_iff empty_set)
qed

lemma uint_byte:
  assumes "0 \<le> k" "k \<le> 255"
  shows "uint (word_of_int k :: 8 word) = k"
  using assms by (simp add: uint_word_of_int take_bit_int_eq_self)

lemma astype_uint8_nth:
  assumes "has_shape h w a" "r < h" "c < w"
  shows "astype_uint8 a ! r ! c = word_of_int (py_int (a ! r ! c))"
  using assms by (simp add: astype_uint8_def has_shape_def list_all_length)

lemma astype_uint8_shape: "has_shape h w a \<Longrightarrow> has_shape h w (astype_uint8 a)"
  by (simp add: astype_uint8_def has_shape_def list_all_length)

lemma np_zeros_like_shape: "has_shape h w a \<Longrightarrow> has_shape h w (np_zeros_like a)"
  by (simp add: np_zeros_like_def has_shape_def list_all_length)

lemma np_zeros_like_nth:
  assumes "has_shape h w a" "r < h" "c < w"
  shows "np_zeros_like a ! r ! c = 0"
  using assms by (simp add: np_zeros_like_def has_shape_def list_all_length)

lemma map_map_shape: "has_shape h w a \<Longrightarrow> has_shape h w (map (map f) a)"
  by (simp add: has_shape_def list_all_length)

lemma map_map_nth:
  assumes "has_shape h w a" "r < h" "c < w"
  shows "map (map f) a ! r ! c = f (a ! r ! c)"
  using assms by (simp add: has_shape_def list_all_length)

text \<open>The scaled value of a cell lies between 0 and 255.\<close>

lemma scaled_range:
  fixes v lo hi :: real
  assumes "lo \<le> v" "v \<le> hi" "lo < hi"
  shows "0 \<le> (v - lo) / (hi - lo) * 255" "(v - lo) / (hi - lo) * 255 \<le> 255"
proof -
  have "0 \<le> (v - lo) / (hi - lo)" using assms by simp
  then show "0 \<le> (v - lo) / (hi - lo) * 255"
    by (rule mult_nonneg_nonneg) simp
  have "(v - lo) / (hi - lo) \<le> 1" using assms by simp
  then have "(v - lo) / (hi - lo) * 255 \<le> 1 * 255"
    by (rule mult_right_mono) simp
  then show "(v - lo) / (hi - lo) * 255 \<le> 255" by simp
qed

lemma minmax_cells:
  assumes "has_shape h w g" "1 \<le> h" "1 \<le> w"
    and "lo = np_min (concat g)" "hi = np_max (concat g)"
  shows "\<exists>out. normalize_intensity g ''minmax'' = Inr out \<and> has_shape h w out
     \<and> (\<forall>r<h. \<forall>c<w. lo \<le> g ! r ! c \<and> g ! r ! c \<le> hi)
     \<and> (hi > lo \<longrightarrow> (\<forall>r<h. \<forall>c<w.
            out ! r ! c = word_of_int \<lfloor>(g ! r ! c - lo) / (hi - lo) * 255\<rfloor>
          \<and> uint (out ! r ! c) = \<lfloor>(g ! r ! c - lo) / (hi - lo) * 255\<rfloor>
          \<and> 0 \<le> uint (out ! r ! c) \<and> uint (out ! r ! c) \<le> 255))
     \<and> (hi \<le> lo \<longrightarrow> (\<forall>r<h. \<forall>c<w. out ! r ! c = 0))"
proof -
  have ne: "concat g \<noteq> []" using assms(1-3) by (rule concat_nonempty)
  have lo: "lo = Min (set (concat g))" and hi: "hi = Max (set (concat g))"
    using ne assms(4,5) by (simp_all add: np_min_Min np_max_Max)
  have bounds: "lo \<le> g ! r ! c \<and> g ! r ! c \<le> hi" if "r < h" "c < w" for r c
    using cell_in_concat[OF assms(1) that] by (simp add: lo hi)
  let ?scaled = "map (map (\<lambda>v. (v - lo) / (hi - lo) * 255)) g"
  let ?normalized = "if hi > lo then ?scaled else np_zeros_like g"
  have res: "normalize_intensity g ''minmax'' = Inr (astype_uint8 ?normalized)"
    using ne by (simp add: normalize_intensity_def Let_def flip: assms(4,5))
  have shn: "has_shape h w ?normalized"
    using assms(1) by (simp add: map_map_shape np_zeros_like_shape)
  have sh: "has_shape h w (astype_uint8 ?normalized)"
    using shn by (rule astype_uint8_shape)
  have pos: "astype_uint8 ?normalized ! r ! c = word_of_int \<lfloor>(g ! r ! c - lo) / (hi - lo) * 255\<rfloor>
          \<and> uint (astype_uint8 ?normalized ! r ! c) = \<lfloor>(g ! r ! c - lo) / (hi - lo) * 255\<rfloor>
          \<and> 0 \<le> uint (astype_uint8 ?normalized ! r ! c)
          \<and> uint (astype_uint8 ?normalized ! r ! c) \<le> 255"
    if "hi > lo" "r < h" "c < w" for r c
  proof -
    let ?s = "(g ! r ! c - lo) / (hi - lo) * 255"
    have rng: "0 \<le> ?s" "?s \<le> 255"
      using scaled_range[of lo "g ! r ! c" hi] bounds[OF that(2,3)] that(1) by simp_all
    then have f: "0 \<le> \<lfloor>?s\<rfloor>" "\<lfloor>?s\<rfloor> \<le> 255"
      by (simp_all add: floor_le_iff le_floor_iff)
    have "astype_uint8 ?normalized ! r ! c = word_of_int (py_int (?normalized ! r ! c))"
      using shn that(2,3) by (rule astype_uint8_nth)
    also have "?normalized ! r ! c = ?s"
      using that map_map_nth[OF assms(1) that(2,3)] by simp
    finally have wd: "astype_uint8 ?normalized ! r ! c = word_of_int \<lfloor>?s\<rfloor>"
      using rng(1) by (simp only: py_int_nonneg)
    moreover have "uint (word_of_int \<lfloor>?s\<rfloor> :: 8 word) = \<lfloor>?s\<rfloor>"
      using f by (rule uint_byte)
    ultimately have "uint (astype_uint8 ?normalized ! r ! c) = \<lfloor>?s\<rfloor>"
      by (simp only:)
    with f wd show ?thesis
      by (simp only: simp_thms)
  qed
  have zero: "astype_uint8 ?normalized ! r ! c = 0" if "hi \<le> lo" "r < h" "c < w" for r c
  proof -
    have "astype_uint8 ?normalized ! r ! c = word_of_int (py_int (?normalized ! r ! c))"
      using shn that(2,3) by (rule astype_uint8_nth)
    also have "?normalized ! r ! c = 0"
      using that np_zeros_like_nth[OF assms(1) that(2,3)] by simp
    finally show ?thesis by (simp add: py_int_def)
  qed
  show ?thesis
    using res sh bounds pos zero by blast
qed

lemma minmax_constant:
  assumes "has_shape h w g" "1 \<le> h" "1 \<le> w" "\<forall>r<h. \<forall>c<w. g ! r ! c = k"
  shows "np_max (concat g) \<le> np_min (concat g)"
proof -
  have ne: "concat g \<noteq> []" using assms(1-3) by (rule concat_nonempty)
  have all: "v = k" if "v \<in> set (concat g)" for v
    using concat_cell[OF assms(1) that] assms(4) by auto
  have "Max (set (concat g)) \<le> k"
    using ne all by (simp add: Max_le_iff)
  moreover have "k \<le> Min (set (concat g))"
    using ne all by (simp add: Min_ge_iff)
  ultimately have "Max (set (concat g)) \<le> Min (set (concat g))"
    by (rule order_trans)
  moreover have "np_max (concat g) = Max (set (concat g))"
    "np_min (concat g) = Min (set (concat g))"
    using ne by (rule np_max_Max, rule np_min_Min)
  ultimately show ?thesis
    by (simp only:)
qed

lemma minmax_single_cell:
  assumes "has_shape h w g" "r0 < h" "c0 < w" "r1 < h" "c1 < w" "(r1, c1) \<noteq> (r0, c0)"
    and "g ! r0 ! c0 = 100" "\<forall>r<h. \<forall>c<w. (r, c) \<noteq> (r0, c0) \<longrightarrow> g ! r ! c = 0"
  shows "np_min (concat g) = 0" "np_max (concat g) = 100"
proof -
  have in0: "0 \<in> set (concat g)"
    using cell_in_concat[OF assms(1,4,5)] assms(6,8,4,5) by auto
  have in100: "100 \<in> set (concat g)"
    using cell_in_concat[OF assms(1,2,3)] assms(7) by simp
  have ne: "concat g \<noteq> []" using in0 by (metis empty_iff empty_set)
  have vals: "v = 0 \<or> v = 100" if "v \<in> set (concat g)" for v
    using concat_cell[OF assms(1) that] assms(7,8) by auto
  have "Min (set (concat g)) = 0"
  proof (rule Min_eqI)
    show "finite (set (concat g))" by simp
    show "0 \<le> y" if "y \<in> set (concat g)" for y using vals[OF that] by auto
    show "0 \<in> set (concat g)" by (rule in0)
  qed
  then show "np_min (concat g) = 0" using ne by (simp add: np_min_Min)
  have "Max (set (concat g)) = 100"
  proof (rule Max_eqI)
    show "finite (set (concat g))" by simp
    show "y \<le> 100" if "y \<in> set (concat g)" for y using vals[OF that] by auto
    show "100 \<in> set (concat g)" by (rule in100)
  qed
  then show "np_max (concat g) = 100" using ne by (simp add: np_max_Max)
qed

text \<open>
  Claim C6, amended. For every grid with at least one cell, minmax normalisation with
  \<open>lo = min(grid)\<close> and \<open>hi = max(grid)\<close> returns an 8-bit image of the same shape. When
  \<open>hi > lo\<close> each cell holds the integer part (not the rounding) of
  \<open>(grid - lo) / (hi - lo) * 255\<close>, a value in \<open>0 \<dots> 255\<close>; when \<open>hi \<le> lo\<close>, as for every
  uniformly constant grid, the image is all zero. A grid of zeros with one cell of value
  100 maps that cell to 255 and the others to 0.
\<close>

theorem minmax_normalization:
  assumes "has_shape h w g" "1 \<le> h" "1 \<le> w"
    and "lo = np_min (concat g)" "hi = np_max (concat g)"
  shows "\<exists>out. normalize_intensity g ''minmax'' = Inr out \<and> has_shape h w out
     \<and> lo = Min (set (concat g)) \<and> hi = Max (set (concat g))
     \<and> (hi > lo \<longrightarrow> (\<forall>r<h. \<forall>c<w.
            out ! r ! c = word_of_int \<lfloor>(g ! r ! c - lo) / (hi - lo) * 255\<rfloor>
          \<and> uint (out ! r ! c) = \<lfloor>(g ! r ! c - lo) / (hi - lo) * 255\<rfloor>
          \<and> 0 \<le> uint (out ! r ! c) \<and> uint (out ! r ! c) \<le> 255))
     \<and> (hi \<le> lo \<longrightarrow> (\<forall>r<h. \<forall>c<w. out ! r ! c = 0))
     \<and> ((\<exists>k. \<forall>r<h. \<forall>c<w. g ! r ! c = k) \<longrightarrow> (\<forall>r<h. \<forall>c<w. out ! r ! c = 0))
     \<and> (\<forall>r0 c0 r1 c1. r0 < h \<and> c0 < w \<and> r1 < h \<and> c1 < w \<and> (r1, c1) \<noteq> (r0, c0)
            \<and> g ! r0 ! c0 = 100 \<and> (\<forall>r<h. \<forall>c<w. (r, c) \<noteq> (r0, c0) \<longrightarrow> g ! r ! c = 0)
          \<longrightarrow> out ! r0 ! c0 = 255 \<and> (\<forall>r<h. \<forall>c<w. (r, c) \<noteq> (r0, c0) \<longrightarrow> out ! r ! c = 0))"
proof -
  have ne: "concat g \<noteq> []" using assms(1-3) by (rule concat_nonempty)
  obtain out where res: "normalize_intensity g ''minmax'' = Inr out" and sh: "has_shape h w out"
    and pos: "hi > lo \<longrightarrow> (\<forall>r<h. \<forall>c<w.
            out ! r ! c = word_of_int \<lfloor>(g ! r ! c - lo) / (hi - lo) * 255\<rfloor>
          \<and> uint (out ! r ! c) = \<lfloor>(g ! r ! c - lo) / (hi - lo) * 255\<rfloor>
          \<and> 0 \<le> uint (out ! r ! c) \<and> uint (out ! r ! c) \<le> 255)"
    and zero: "hi \<le> lo \<longrightarrow> (\<forall>r<h. \<forall>c<w. out ! r ! c = 0)"
    using minmax_cells[OF assms] by blast
  have mm: "lo = Min (set (concat g))" "hi = Max (set (concat g))"
    using ne assms(4,5) by (simp_all add: np_min_Min np_max_Max)
  have const: "\<forall>r<h. \<forall>c<w. out ! r ! c = 0" if "\<exists>k. \<forall>r<h. \<forall>c<w. g ! r ! c = k"
  proof -
    from that obtain k where "\<forall>r<h. \<forall>c<w. g ! r ! c = k" by blast
    with assms(1-3) have "np_max (concat g) \<le> np_min (concat g)" by (rule minmax_constant)
    then show ?thesis using zero assms(4,5) by simp
  qed
  have single: "out ! r0 ! c0 = 255 \<and> (\<forall>r<h. \<forall>c<w. (r, c) \<noteq> (r0, c0) \<longrightarrow> out ! r ! c = 0)"
    if "r0 < h \<and> c0 < w \<and> r1 < h \<and> c1 < w \<and> (r1, c1) \<noteq> (r0, c0)
            \<and> g ! r0 ! c0 = 100 \<and> (\<forall>r<h. \<forall>c<w. (r, c) \<noteq> (r0, c0) \<longrightarrow> g ! r ! c = 0)"
    for r0 c0 r1 c1
  proof -
    have "np_min (concat g) = 0" "np_max (concat g) = 100"
      using minmax_single_cell[OF assms(1), of r0 c0 r1 c1] that by blast+
    then have lh: "lo = 0" "hi = 100" using assms(4,5) by simp_all
    then have cells: "\<forall>r<h. \<forall>c<w. out ! r ! c = word_of_int \<lfloor>(g ! r ! c - 0) / (100 - 0) * 255\<rfloor>"
      using pos by simp
    have "out ! r0 ! c0 = 255"
      using cells that by simp
    moreover have "out ! r ! c = 0" if "r < h" "c < w" "(r, c) \<noteq> (r0, c0)" for r c
    proof -
      have "g ! r ! c = 0" using that \<open>r0 < h \<and> _\<close> by blast
      then show ?thesis using cells that(1,2) by simp
    qed
    ultimately show ?thesis by blast
  qed
  show ?thesis
    using res sh mm pos zero const single by blast
qed

text \<open>A \<open>2 \<times> 2\<close> grid of zeros with one cell of value 100.\<close>

theorem minmax_normalization_witness:
  "has_shape 2 2 [[0, 0], [0, 100 :: real]]
   \<and> np_min (concat [[0, 0], [0, 100]]) = 0 \<and> np_max (concat [[0, 0], [0, 100]]) = 100
   \<and> (\<exists>out. normalize_intensity [[0, 0], [0, 100]] ''minmax'' = Inr out
         \<and> has_shape 2 2 out \<and> out ! 1 ! 1 = 255 \<and> out ! 0 ! 0 = 0 \<and> out ! 0 ! 1 = 0
         \<and> out ! 1 ! 0 = 0)"
proof -
  let ?g = "[[0, 0], [0, 100 :: real]]"
  have sh: "has_shape 2 2 ?g" by (simp add: has_shape_def)
  have lo: "0 = np_min (concat ?g)" and hi: "100 = np_max (concat ?g)"
    by (simp_all add: np_min_def np_max_def)
  have others: "\<forall>r<2. \<forall>c<2. (r, c) \<noteq> (1, 1) \<longrightarrow> ?g ! r ! c = 0"
    by (auto simp add: less_Suc_eq numeral_2_eq_2)
  from minmax_normalization[OF sh _ _ lo hi]
  obtain out where res: "normalize_intensity ?g ''minmax'' = Inr out" and sho: "has_shape 2 2 out"
    and single: "\<forall>r0 c0 r1 c1. r0 < 2 \<and> c0 < 2 \<and> r1 < 2 \<and> c1 < 2 \<and> (r1, c1) \<noteq> (r0, c0)
            \<and> ?g ! r0 ! c0 = 100 \<and> (\<forall>r<2. \<forall>c<2. (r, c) \<noteq> (r0, c0) \<longrightarrow> ?g ! r ! c = 0)
          \<longrightarrow> out ! r0 ! c0 = 255 \<and> (\<forall>r<2. \<forall>c<2. (r, c) \<noteq> (r0, c0) \<longrightarrow> out ! r ! c = 0)"
    by auto
  from single[rule_format, of 1 1 0 0] others
  have "out ! 1 ! 1 = 255 \<and> (\<forall>r<2. \<forall>c<2. (r, c) \<noteq> (1, 1) \<longrightarrow> out ! r ! c = 0)"
    by simp
  then have "out ! 1 ! 1 = 255" "out ! 0 ! 0 = 0" "out ! 0 ! 1 = 0" "out ! 1 ! 0 = 0"
    by simp_all
  with res sho sh lo hi show ?thesis by simp
qed

text \<open>
  Claim C6 as stated fails where the scaled value is not an integer: for the grid
  \<open>[0, 2, 7]\<close> the middle cell scales to \<open>72.857\<dots>\<close>, which rounds to 73, and the code
  stores 72.
\<close>

theorem minmax_rounding_counterexample:
  "normalize_intensity [[0, 2, 7]] ''minmax'' = Inr [[0, 72, 255]]
   \<and> round (((2::real) - 0) / (7 - 0) * 255) = 73"
  by (simp add: normalize_intensity_def np_min_def np_max_def astype_uint8_def py_int_def
      round_def)

text \<open>
  Claim C3 fails on the code. For a grid without a positive cell the percentile method
  hands \<open>np.percentile\<close> an empty array, which raises; the minmax method returns the
  all-zero image for the same grid. \<open>rasterize_bev\<close> returns such a grid for a frame
  whose points all lie outside the extent.
\<close>

theorem percentile_no_positive_cell_raises:
  "normalize_intensity [[0, 0], [0, 0]] ''percentile'' = Inl IndexError
   \<and> normalize_intensity [[0, 0], [0, 0]] ''minmax'' = Inr [[0, 0], [0, 0]]
   \<and> rasterize_bev [(5, 5, 0)] [1] (0, 2, 0, 2) 1 ''max'' = Inr [[0, 0], [0, 0]]"
proof -
  have d: "bev_dims (0, 2, 0, 2) 1 = Inr (2, 2)"
    by code_simp
  have "rasterize_bev [(5, 5, 0)] [1] (0, 2, 0, 2) 1 ''max'' = Inr [[0, 0], [0, 0]]"
    using d by (simp add: rasterize_bev_def np_zeros_def valid_mask_def numeral_2_eq_2)
  then show ?thesis
    by (simp add: normalize_intensity_def np_percentile_def np_min_def np_max_def
        astype_uint8_def np_zeros_like_def py_int_def)
qed

subsection \<open>Compositing\<close>

lemma map2_commute:
  assumes "\<And>x y. f x y = f y x"
  shows "map2 f xs ys = map2 f ys xs"
proof (induction xs arbitrary: ys)
  case Nil
  then show ?case by simp
next
  case (Cons x xs)
  then show ?case by (cases ys) (simp_all add: assms)
qed

lemma map2_assoc:
  assumes "\<And>x y z. f (f x y) z = f x (f y z)"
  shows "map2 f (map2 f xs ys) zs = map2 f xs (map2 f ys zs)"
proof (induction xs arbitrary: ys zs)
  case Nil
  then show ?case by simp
next
  case (Cons x xs)
  show ?case
  proof (cases ys)
    case Nil
    then show ?thesis by simp
  next
    case ys: (Cons y ys')
    show ?thesis
    proof (cases zs)
      case Nil
      then show ?thesis by simp
    next
      case (Cons z zs')
      then show ?thesis using ys Cons.IH by (simp add: assms)
    qed
  qed
qed

lemma np_maximum_commute: "np_maximum a b = np_maximum b a"
proof -
  have "map2 max x y = map2 max y x" for x y :: "real list"
    by (rule map2_commute) (rule max.commute)
  then show ?thesis
    unfolding np_maximum_def by (rule map2_commute)
qed

lemma np_maximum_assoc: "np_maximum (np_maximum a b) c = np_maximum a (np_maximum b c)"
proof -
  have "map2 max (map2 max x y) z = map2 max x (map2 max y z)" for x y z :: "real list"
    by (rule map2_assoc) (rule max.assoc)
  then show ?thesis
    unfolding np_maximum_def by (rule map2_assoc)
qed

lemma map2_grid_shape:
  assumes "has_shape h w a" "has_shape h w b"
  shows "has_shape h w (map2 (map2 f) a b)"
  using assms by (simp add: has_shape_def list_all_length)

lemma map2_grid_nth:
  assumes "has_shape h w a" "has_shape h w b" "r < h" "c < w"
  shows "map2 (map2 f) a b ! r ! c = f (a ! r ! c) (b ! r ! c)"
  using assms by (simp add: has_shape_def list_all_length)

text \<open>
  The accumulator after a list of frames, cell by cell, for the merge \<open>f\<close> of either
  reducer.
\<close>

lemma composite_run_cells:
  assumes "has_shape h w composite" "\<forall>g \<in> set frames. has_shape h w g"
    and "\<And>a b. composite_update reducer (Some a) b = Some (map2 (map2 f) a b)"
  shows "\<exists>comp. composite_run reducer (Some composite) frames = Some comp \<and> has_shape h w comp
     \<and> (\<forall>r<h. \<forall>c<w. comp ! r ! c = fold (\<lambda>g v. f v (g ! r ! c)) frames (composite ! r ! c))"
  using assms(1,2)
proof (induction frames arbitrary: composite)
  case Nil
  then show ?case by simp
next
  case (Cons g frames)
  let ?m = "map2 (map2 f) composite g"
  have g: "has_shape h w g" using Cons.prems(2) by simp
  have sh: "has_shape h w ?m"
    using Cons.prems(1) g by (rule map2_grid_shape)
  have rest: "\<forall>g \<in> set frames. has_shape h w g" using Cons.prems(2) by simp
  from Cons.IH[OF sh rest] obtain comp where
    run: "composite_run reducer (Some ?m) frames = Some comp" and shc: "has_shape h w comp"
    and cells: "\<forall>r<h. \<forall>c<w. comp ! r ! c = fold (\<lambda>g v. f v (g ! r ! c)) frames (?m ! r ! c)"
    by blast
  have "composite_run reducer (Some composite) (g # frames) = Some comp"
    using run by (simp add: assms(3))
  moreover have "\<forall>r<h. \<forall>c<w.
      comp ! r ! c = fold (\<lambda>g v. f v (g ! r ! c)) (g # frames) (composite ! r ! c)"
  proof (intro allI impI)
    fix r c assume rc: "r < h" "c < w"
    have "?m ! r ! c = f (composite ! r ! c) (g ! r ! c)"
      using Cons.prems(1) g rc by (rule map2_grid_nth)
    then show "comp ! r ! c = fold (\<lambda>g v. f v (g ! r ! c)) (g # frames) (composite ! r ! c)"
      using cells rc by simp
  qed
  ultimately show ?case using shc by blast
qed

lemma composite_update_max:
  "composite_update ''max'' (Some a) b = Some (map2 (map2 max) a b)"
  by (simp add: composite_update_def np_maximum_def)

lemma composite_update_mean:
  "composite_update ''mean'' (Some a) b = Some (map2 (map2 (\<lambda>u v. (u + v) / 2)) a b)"
  by (simp add: composite_update_def pairwise_average_def)

lemma fold_max_cells:
  "fold (\<lambda>g v. max v (g ! r ! c)) frames (x::real) = Max (insert x ((\<lambda>g. g ! r ! c) ` set frames))"
proof -
  have "fold (\<lambda>g v. max v (g ! r ! c)) frames x =
        fold (\<lambda>v a. max a v) (map (\<lambda>g. g ! r ! c) frames) x"
    by (simp add: fold_map comp_def)
  then show ?thesis by (simp add: fold_max_Max)
qed

lemma fold_average:
  "fold (\<lambda>u v. (v + u) / 2) us (x::real) =
     x / 2 ^ length us + (\<Sum>j<length us. us ! j / 2 ^ (length us - j))"
proof (induction us arbitrary: x)
  case Nil
  then show ?case by simp
next
  case (Cons u us)
  let ?n = "length us"
  have "fold (\<lambda>u v. (v + u) / 2) (u # us) x =
        (x + u) / 2 / 2 ^ ?n + (\<Sum>j<?n. us ! j / 2 ^ (?n - j))"
    using Cons.IH[of "(x + u) / 2"] by simp
  also have "(x + u) / 2 / 2 ^ ?n = x / 2 ^ Suc ?n + u / 2 ^ Suc ?n"
    by (simp add: add_divide_distrib)
  also have "x / 2 ^ Suc ?n + u / 2 ^ Suc ?n + (\<Sum>j<?n. us ! j / 2 ^ (?n - j)) =
        x / 2 ^ Suc ?n + (\<Sum>j<Suc ?n. (u # us) ! j / 2 ^ (Suc ?n - j))"
  proof -
    have "(\<Sum>j<Suc ?n. (u # us) ! j / 2 ^ (Suc ?n - j)) =
          (u # us) ! 0 / 2 ^ (Suc ?n - 0) + (\<Sum>j<?n. (u # us) ! Suc j / 2 ^ (Suc ?n - Suc j))"
      by (rule sum.lessThan_Suc_shift)
    also have "\<dots> = u / 2 ^ Suc ?n + (\<Sum>j<?n. us ! j / 2 ^ (?n - j))"
      by simp
    finally show ?thesis by (simp only: add.assoc)
  qed
  finally show ?case by simp
qed

lemma fold_average_cells:
  "fold (\<lambda>g v. (v + g ! r ! c) / 2) frames (x::real) =
     x / 2 ^ length frames + (\<Sum>j<length frames. frames ! j ! r ! c / 2 ^ (length frames - j))"
proof -
  have "fold (\<lambda>g v. (v + g ! r ! c) / 2) frames x =
        fold (\<lambda>u v. (v + u) / 2) (map (\<lambda>g. g ! r ! c) frames) x"
    by (simp add: fold_map comp_def)
  then show ?thesis by (simp add: fold_average)
qed

lemma max_composite_cells:
  assumes "\<forall>g \<in> set (first # rest). has_shape h w g"
  shows "\<exists>comp. composite_run ''max'' None (first # rest) = Some comp \<and> has_shape h w comp
    \<and> (\<forall>r<h. \<forall>c<w. comp ! r ! c = Max ((\<lambda>g. g ! r ! c) ` set (first # rest)))"
proof -
  have f: "has_shape h w first" and r: "\<forall>g \<in> set rest. has_shape h w g"
    using assms by simp_all
  from composite_run_cells[OF f r composite_update_max] obtain comp where
    "composite_run ''max'' (Some first) rest = Some comp" "has_shape h w comp"
    "\<forall>r<h. \<forall>c<w. comp ! r ! c = fold (\<lambda>g v. max v (g ! r ! c)) rest (first ! r ! c)"
    by blast
  then show ?thesis
    by (simp add: composite_update_def fold_max_cells)
qed

text \<open>
  Claim C7. In composite mode with the max reducer, the composite of per-frame grids of
  one shape is their elementwise maximum; it does not depend on the order in which the
  frames are merged, two grids merged in either order give their elementwise maximum,
  and the merge is associative.
\<close>

theorem max_composite_elementwise_maximum:
  assumes "\<forall>g \<in> set (first # rest). has_shape h w g"
  shows "\<exists>comp. composite_run ''max'' None (first # rest) = Some comp \<and> has_shape h w comp
    \<and> (\<forall>r<h. \<forall>c<w. comp ! r ! c = Max ((\<lambda>g. g ! r ! c) ` set (first # rest)))
    \<and> (\<forall>frames'. mset frames' = mset (first # rest) \<longrightarrow>
          composite_run ''max'' None frames' = Some comp)
    \<and> (\<forall>a b. has_shape h w a \<and> has_shape h w b \<longrightarrow>
          composite_run ''max'' None [a, b] = Some (np_maximum a b)
        \<and> composite_run ''max'' None [b, a] = Some (np_maximum a b)
        \<and> (\<forall>r<h. \<forall>c<w. np_maximum a b ! r ! c = max (a ! r ! c) (b ! r ! c)))
    \<and> (\<forall>a b c. np_maximum (np_maximum a b) c = np_maximum a (np_maximum b c))"
proof -
  obtain comp where run: "composite_run ''max'' None (first # rest) = Some comp"
    and sh: "has_shape h w comp"
    and cells: "\<forall>r<h. \<forall>c<w. comp ! r ! c = Max ((\<lambda>g. g ! r ! c) ` set (first # rest))"
    using max_composite_cells[OF assms] by blast
  have perm: "composite_run ''max'' None frames' = Some comp"
    if m: "mset frames' = mset (first # rest)" for frames'
  proof -
    have s: "set frames' = set (first # rest)" using m by (rule mset_eq_setD)
    then have "frames' \<noteq> []" by auto
    then obtain first' rest' where f: "frames' = first' # rest'" by (cases frames') auto
    have "\<forall>g \<in> set (first' # rest'). has_shape h w g"
      using assms s f by simp
    from max_composite_cells[OF this] obtain comp' where
      run': "composite_run ''max'' None (first' # rest') = Some comp'"
      and sh': "has_shape h w comp'"
      and cells': "\<forall>r<h. \<forall>c<w. comp' ! r ! c = Max ((\<lambda>g. g ! r ! c) ` set (first' # rest'))"
      by blast
    have im: "set (first' # rest') = set (first # rest)" using s f by simp
    have "\<forall>r<h. \<forall>c<w. comp' ! r ! c = comp ! r ! c"
      using cells cells' unfolding im by simp
    with sh' sh have "comp' = comp" by (rule grid_ext)
    then show ?thesis using run' f by simp
  qed
  have two: "composite_run ''max'' None [a, b] = Some (np_maximum a b)
        \<and> composite_run ''max'' None [b, a] = Some (np_maximum a b)
        \<and> (\<forall>r<h. \<forall>c<w. np_maximum a b ! r ! c = max (a ! r ! c) (b ! r ! c))"
    if "has_shape h w a \<and> has_shape h w b" for a b
  proof -
    have "composite_run ''max'' None [b, a] = Some (np_maximum b a)"
      by (simp add: composite_update_def)
    moreover have "composite_run ''max'' None [a, b] = Some (np_maximum a b)"
      by (simp add: composite_update_def)
    moreover have "\<forall>r<h. \<forall>c<w. np_maximum a b ! r ! c = max (a ! r ! c) (b ! r ! c)"
    proof (intro allI impI)
      fix r c assume "r < h" "c < w"
      with that show "np_maximum a b ! r ! c = max (a ! r ! c) (b ! r ! c)"
        unfolding np_maximum_def by (intro map2_grid_nth[of h w]) simp_all
    qed
    ultimately show ?thesis
      by (simp add: np_maximum_commute[of b a])
  qed
  show ?thesis
  proof (intro exI conjI)
    show "composite_run ''max'' None (first # rest) = Some comp" by (rule run)
    show "has_shape h w comp" by (rule sh)
    show "\<forall>r<h. \<forall>c<w. comp ! r ! c = Max ((\<lambda>g. g ! r ! c) ` set (first # rest))"
      by (rule cells)
    show "\<forall>frames'. mset frames' = mset (first # rest) \<longrightarrow>
          composite_run ''max'' None frames' = Some comp"
      using perm by simp
    show "\<forall>a b. has_shape h w a \<and> has_shape h w b \<longrightarrow>
          composite_run ''max'' None [a, b] = Some (np_maximum a b)
        \<and> composite_run ''max'' None [b, a] = Some (np_maximum a b)
        \<and> (\<forall>r<h. \<forall>c<w. np_maximum a b ! r ! c = max (a ! r ! c) (b ! r ! c))"
      using two by (intro allI impI)
    show "\<forall>a b c. np_maximum (np_maximum a b) c = np_maximum a (np_maximum b c)"
      by (intro allI) (rule np_maximum_assoc)
  qed
qed

text \<open>Three \<open>1 \<times> 2\<close> frames, merged in two orders.\<close>

theorem max_composite_elementwise_maximum_witness:
  "composite_run ''max'' None [[[1, 5]], [[4, 2]], [[3, 3]]] = Some [[4, 5]]
   \<and> composite_run ''max'' None [[[3, 3]], [[1, 5]], [[4, 2]]] = Some [[4, 5]]"
proof -
  have sh: "\<forall>g \<in> set [[[1, 5]], [[4, 2]], [[3, 3 :: real]]]. has_shape 1 2 g"
    by (simp add: has_shape_def)
  have e: "composite_run ''max'' None [[[1, 5]], [[4, 2]], [[3, 3]]] = Some [[4, 5]]"
    by (simp add: composite_update_def np_maximum_def)
  from max_composite_elementwise_maximum[OF sh] obtain comp where
    "composite_run ''max'' None [[[1, 5]], [[4, 2]], [[3, 3]]] = Some comp"
    and perm: "\<forall>frames'. mset frames' = mset [[[1, 5]], [[4, 2]], [[3, 3]]] \<longrightarrow>
          composite_run ''max'' None frames' = Some comp"
    by (elim exE conjE)
  with e have c: "comp = [[4, 5]]" by simp
  have "mset [[[3, 3]], [[1, 5]], [[4, 2 :: real]]] = mset [[[1, 5]], [[4, 2]], [[3, 3]]]"
    by simp
  with perm have "composite_run ''max'' None [[[3, 3]], [[1, 5]], [[4, 2]]] = Some comp"
    by (elim allE impE)
  with c e show ?thesis by simp
qed

text \<open>
  Claim C8, amended. In composite mode with the mean reducer each new frame is merged
  by \<open>composite = (composite + frame) / 2\<close>. With the frames numbered \<open>1 \<dots> n\<close>, the
  first frame contributes with weight \<open>1 / 2^(n-1)\<close> and frame \<open>k \<ge> 2\<close> with weight
  \<open>1 / 2^(n-k+1)\<close>: the first two frames weigh the same and from the second frame on
  each frame weighs twice its predecessor. (Below \<open>rest ! j\<close> is frame \<open>j + 2\<close> and
  \<open>length rest = n - 1\<close>.) For three or more frames this is not the mean of the frames:
  where only the last frame is nonzero the composite holds half its value instead of
  one \<open>n\<close>-th.
\<close>

theorem mean_composite_pairwise_average:
  assumes "\<forall>g \<in> set (first # rest). has_shape h w g" "m = length rest"
  shows "\<exists>comp. composite_run ''mean'' None (first # rest) = Some comp \<and> has_shape h w comp
    \<and> (\<forall>r<h. \<forall>c<w.
          comp ! r ! c = first ! r ! c / 2 ^ m + (\<Sum>j<m. rest ! j ! r ! c / 2 ^ (m - j)))
    \<and> (\<forall>g. has_shape h w g \<longrightarrow>
          composite_run ''mean'' None ((first # rest) @ [g]) = Some (pairwise_average comp g)
        \<and> (\<forall>r<h. \<forall>c<w. pairwise_average comp g ! r ! c = (comp ! r ! c + g ! r ! c) / 2))
    \<and> (\<forall>r<h. \<forall>c<w. 2 \<le> m \<and> first ! r ! c = 0 \<and> (\<forall>j<m - 1. rest ! j ! r ! c = 0)
            \<and> rest ! (m - 1) ! r ! c \<noteq> 0 \<longrightarrow>
          comp ! r ! c = rest ! (m - 1) ! r ! c / 2
        \<and> comp ! r ! c \<noteq> (first ! r ! c + (\<Sum>j<m. rest ! j ! r ! c)) / real (m + 1))"
proof -
  have f: "has_shape h w first" and r: "\<forall>g \<in> set rest. has_shape h w g"
    using assms by simp_all
  from composite_run_cells[OF f r composite_update_mean] obtain comp where
    run0: "composite_run ''mean'' (Some first) rest = Some comp" and sh: "has_shape h w comp"
    and cells0: "\<forall>r<h. \<forall>c<w. comp ! r ! c = fold (\<lambda>g v. (v + g ! r ! c) / 2) rest (first ! r ! c)"
    by blast
  have run: "composite_run ''mean'' None (first # rest) = Some comp"
    using run0 by (simp add: composite_update_def)
  have cells: "\<forall>r<h. \<forall>c<w.
          comp ! r ! c = first ! r ! c / 2 ^ m + (\<Sum>j<m. rest ! j ! r ! c / 2 ^ (m - j))"
    using cells0 by (simp add: fold_average_cells assms(2))
  have app: "composite_run reducer c0 (xs @ [g]) =
      Some (the (composite_update reducer (composite_run reducer c0 xs) g))"
    for reducer c0 xs g
    by (induction xs arbitrary: c0) (simp_all add: composite_update_def split: option.splits)
  have step: "composite_run ''mean'' None ((first # rest) @ [g]) = Some (pairwise_average comp g)
        \<and> (\<forall>r<h. \<forall>c<w. pairwise_average comp g ! r ! c = (comp ! r ! c + g ! r ! c) / 2)"
    if "has_shape h w g" for g
  proof -
    have "composite_run ''mean'' None ((first # rest) @ [g]) = Some (pairwise_average comp g)"
      unfolding app run by (simp add: composite_update_def)
    moreover have "\<forall>r<h. \<forall>c<w. pairwise_average comp g ! r ! c = (comp ! r ! c + g ! r ! c) / 2"
    proof (intro allI impI)
      fix r c assume "r < h" "c < w"
      with sh that show "pairwise_average comp g ! r ! c = (comp ! r ! c + g ! r ! c) / 2"
        unfolding pairwise_average_def by (intro map2_grid_nth[of h w]) simp_all
    qed
    ultimately show ?thesis by blast
  qed
  have last: "comp ! r ! c = rest ! (m - 1) ! r ! c / 2
        \<and> comp ! r ! c \<noteq> (first ! r ! c + (\<Sum>j<m. rest ! j ! r ! c)) / real (m + 1)"
    if rc: "r < h" "c < w" and hyp: "2 \<le> m \<and> first ! r ! c = 0 \<and> (\<forall>j<m - 1. rest ! j ! r ! c = 0)
            \<and> rest ! (m - 1) ! r ! c \<noteq> 0" for r c
  proof -
    let ?v = "rest ! (m - 1) ! r ! c"
    from hyp obtain k where k: "m = Suc k" "1 \<le> k" by (cases m) auto
    have z: "\<forall>j<k. rest ! j ! r ! c = 0" using hyp k by simp
    have "comp ! r ! c = first ! r ! c / 2 ^ m + (\<Sum>j<m. rest ! j ! r ! c / 2 ^ (m - j))"
      using cells rc by simp
    also have "\<dots> = (\<Sum>j<k. rest ! j ! r ! c / 2 ^ (Suc k - j)) + rest ! k ! r ! c / 2"
      using hyp k by simp
    also have "(\<Sum>j<k. rest ! j ! r ! c / 2 ^ (Suc k - j)) = 0"
      using z by simp
    finally have c1: "comp ! r ! c = ?v / 2" using k by simp
    have "(\<Sum>j<m. rest ! j ! r ! c) = (\<Sum>j<k. rest ! j ! r ! c) + rest ! k ! r ! c"
      using k by simp
    also have "(\<Sum>j<k. rest ! j ! r ! c) = 0" using z by simp
    finally have mean: "(first ! r ! c + (\<Sum>j<m. rest ! j ! r ! c)) / real (m + 1) = ?v / real (m + 1)"
      using hyp k by simp
    have neq: "?v / 2 \<noteq> ?v / real (m + 1)"
    proof
      assume "?v / 2 = ?v / real (m + 1)"
      then have "?v * real (m + 1) = ?v * 2"
        by (simp add: field_simps)
      then have "real (m + 1) = 2" using hyp by simp
      then show False using k by simp
    qed
    from neq show ?thesis unfolding c1 mean by simp
  qed
  show ?thesis
  proof (intro exI conjI)
    show "composite_run ''mean'' None (first # rest) = Some comp" by (rule run)
    show "has_shape h w comp" by (rule sh)
    show "\<forall>r<h. \<forall>c<w.
          comp ! r ! c = first ! r ! c / 2 ^ m + (\<Sum>j<m. rest ! j ! r ! c / 2 ^ (m - j))"
      by (rule cells)
    show "\<forall>g. has_shape h w g \<longrightarrow>
          composite_run ''mean'' None ((first # rest) @ [g]) = Some (pairwise_average comp g)
        \<and> (\<forall>r<h. \<forall>c<w. pairwise_average comp g ! r ! c = (comp ! r ! c + g ! r ! c) / 2)"
      using step by (intro allI impI)
    show "\<forall>r<h. \<forall>c<w. 2 \<le> m \<and> first ! r ! c = 0 \<and> (\<forall>j<m - 1. rest ! j ! r ! c = 0)
            \<and> rest ! (m - 1) ! r ! c \<noteq> 0 \<longrightarrow>
          comp ! r ! c = rest ! (m - 1) ! r ! c / 2
        \<and> comp ! r ! c \<noteq> (first ! r ! c + (\<Sum>j<m. rest ! j ! r ! c)) / real (m + 1)"
      using last by (intro allI impI)
  qed
qed

text \<open>
  Three \<open>1 \<times> 1\<close> frames with the values 0, 0 and 3: the composite holds \<open>3 / 2\<close>, the
  mean of the frames is 1.
\<close>

theorem mean_composite_pairwise_average_witness:
  "composite_run ''mean'' None [[[0]], [[0]], [[3]]] = Some [[3 / 2]]
   \<and> (3 / 2 :: real) \<noteq> (0 + 0 + 3) / 3"
proof -
  have sh: "\<forall>g \<in> set [[[0]], [[0]], [[3 :: real]]]. has_shape 1 1 g"
    by (simp add: has_shape_def)
  have e: "composite_run ''mean'' None [[[0]], [[0]], [[3]]] = Some [[3 / 2]]"
    by (simp add: composite_update_def pairwise_average_def)
  from mean_composite_pairwise_average[OF sh, of 2] obtain comp where
    run: "composite_run ''mean'' None [[[0]], [[0]], [[3]]] = Some comp"
    and last: "\<forall>r<1. \<forall>c<1. 2 \<le> (2::nat) \<and> [[0::real]] ! r ! c = 0
            \<and> (\<forall>j<2 - 1. [[[0]], [[3::real]]] ! j ! r ! c = 0)
            \<and> [[[0]], [[3::real]]] ! (2 - 1) ! r ! c \<noteq> 0 \<longrightarrow>
          comp ! r ! c = [[[0]], [[3::real]]] ! (2 - 1) ! r ! c / 2
        \<and> comp ! r ! c \<noteq> ([[0::real]] ! r ! c + (\<Sum>j<2. [[[0]], [[3::real]]] ! j ! r ! c)) / real (2 + 1)"
    by auto
  from last[rule_format, of 0 0] have "comp ! 0 ! 0 = 3 / 2"
    by simp
  with run e show ?thesis by simp
qed

text \<open>
  Claim C8 as stated gives frame \<open>k\<close> of \<open>n\<close> the weight \<open>1 / 2^(n-k)\<close> and later frames
  strictly more weight than earlier ones. Of three frames the last one weighs \<open>1 / 2\<close>,
  not \<open>1 / 2^(3-3) = 1\<close>, and the first two both weigh \<open>1 / 4\<close>.
\<close>

theorem mean_composite_weights_counterexample:
  "composite_run ''mean'' None [[[0]], [[0]], [[1]]] = Some [[1 / 2]]
   \<and> (1 / 2 :: real) \<noteq> 1 / 2 ^ (3 - 3)
   \<and> composite_run ''mean'' None [[[0]], [[1]], [[0]]] = Some [[1 / 4]]
   \<and> composite_run ''mean'' None [[[1]], [[0]], [[0]]] = Some [[1 / 4]]"
  by (simp add: composite_update_def pairwise_average_def)

subsection \<open>The two pixel conventions\<close>

text \<open>
  Claim C9, amended. For a point inside the extent, with the same extent and resolution,
  both rasterisers take the column from \<open>floor ((x - xmin) / resolution)\<close>
  (\<open>rasterize_bev\<close> caps it at \<open>width - 1\<close>), so the columns agree whenever that floor is
  below \<open>width\<close>. The rows follow two conventions: \<open>rasterize_bev\<close> uses
  \<open>floor ((y - ymin) / resolution)\<close>, capped at \<open>height - 1\<close>, and
  \<open>convert_laz_to_png.py\<close> uses the flipped \<open>floor ((ymax - y) / resolution)\<close>.
\<close>

theorem pixel_conventions:
  assumes "0 < resolution" "xmin \<le> x" "x < xmax" "ymin \<le> y" "y < ymax"
  shows "laz_pixel xmin ymax resolution (x, y) =
           (\<lfloor>(x - xmin) / resolution\<rfloor>, \<lfloor>(ymax - y) / resolution\<rfloor>)
     \<and> bev_pixel (xmin, xmax, ymin, ymax) resolution width height (x, y) =
           (min \<lfloor>(x - xmin) / resolution\<rfloor> (width - 1),
            min \<lfloor>(y - ymin) / resolution\<rfloor> (height - 1))
     \<and> (\<lfloor>(x - xmin) / resolution\<rfloor> \<le> width - 1 \<longrightarrow>
           fst (bev_pixel (xmin, xmax, ymin, ymax) resolution width height (x, y)) =
           fst (laz_pixel xmin ymax resolution (x, y)))"
proof -
  have "0 \<le> (x - xmin) / resolution" "0 \<le> (ymax - y) / resolution"
    using assms by simp_all
  then have laz: "laz_pixel xmin ymax resolution (x, y) =
           (\<lfloor>(x - xmin) / resolution\<rfloor>, \<lfloor>(ymax - y) / resolution\<rfloor>)"
    by (simp add: laz_pixel_def py_int_nonneg)
  have bev: "bev_pixel (xmin, xmax, ymin, ymax) resolution width height (x, y) =
           (min \<lfloor>(x - xmin) / resolution\<rfloor> (width - 1),
            min \<lfloor>(y - ymin) / resolution\<rfloor> (height - 1))"
    using assms(1,2,4) by (rule bev_pixel_in_extent)
  show ?thesis
    unfolding laz bev by (simp add: min_def)
qed

text \<open>The point \<open>(0.5, 1.5)\<close> in the extent \<open>(0, 2, 0, 2)\<close> at one metre per pixel.\<close>

theorem pixel_conventions_witness:
  "laz_pixel 0 2 1 (0.5, 1.5) = (0, 0) \<and> bev_pixel (0, 2, 0, 2) 1 2 2 (0.5, 1.5) = (0, 1)"
  using pixel_conventions[of 1 0 "0.5" 2 0 "1.5" 2 2 2]
  by simp

text \<open>
  Claim C9 as stated fails: for the points \<open>(0, 0)\<close>, \<open>(0.5, 0.5)\<close> and \<open>(2, 2)\<close>, whose
  bounds are the extent \<open>(0, 2, 0, 2)\<close>, at one metre per pixel, \<open>rasterize_bev\<close> puts
  \<open>(0.5, 0.5)\<close> in row 0 and \<open>convert_laz_to_png.py\<close> puts it in row 1 of its
  \<open>3 \<times> 3\<close> raster.
\<close>

theorem row_convention_counterexample:
  "bev_pixel (0, 2, 0, 2) 1 2 2 (0.5, 0.5) = (0, 0)
   \<and> in_extent (0, 2, 0, 2) (0.5, 0.5, 0)
   \<and> laz_dims [0, 0.5, 2] [0, 0.5, 2] 1 = Some (3, 3)
   \<and> laz_pixel (np_min [0, 0.5, 2]) (np_max [0, 0.5, 2]) 1 (0.5, 0.5) = (0, 1)
   \<and> laz_valid 3 3 (0, 1)"
proof -
  have "laz_dims [0, 0.5, 2] [0, 0.5, 2] 1 = Some (3, 3)"
    by code_simp
  then show ?thesis
    by (simp add: bev_pixel_def in_extent_def laz_pixel_def laz_valid_def
        np_min_def np_max_def np_clip_def py_int_def)
qed

end
